theory Spec2Isabelle
  imports Complex_Main "HOL-Library.AList" "HOL-Library.Sublist"
begin

section \<open>The request-proxy pipeline of luminarychat.py\<close>

text \<open>
  A shallow embedding of the core of \<^verbatim>\<open>src/luminarychat.py\<close>: the sliding-window
  \<^verbatim>\<open>RateLimiter\<close>, the retry loop and request rewriting of \<^verbatim>\<open>UpstreamAPIClient\<close>, and
  the line-by-line rewriting of \<^verbatim>\<open>StreamProcessor\<close>.

  Conventions of the embedding.
  \<^item> Python \<^verbatim>\<open>int\<close> is \<open>int\<close>. Python \<^verbatim>\<open>float\<close> (clock readings, the retry delay) is
    \<open>real\<close>: the code only compares, subtracts a constant from and doubles these values.
  \<^item> Python \<^verbatim>\<open>str\<close> is \<open>string\<close>; a character stands for one code point.
  \<^item> An effect of the environment (the clock, the upstream transport, the upstream
    byte stream) is an argument of the function that observes it.
  \<^item> A raised exception is the \<open>Inl\<close> of a sum; the calls a function makes to the
    outside are returned as a trace of events.
  \<^item> Log calls are left out: they change no value the functions return.
\<close>

subsection \<open>RateLimiter\<close>

text \<open>
  \<^verbatim>\<open>self.requests\<close> is a \<^verbatim>\<open>defaultdict(list)\<close>: a dictionary from keys to lists of clock
  readings in which reading a missing key gives the empty list.
\<close>

record RateLimiter =
  rate_per_minute :: int
  requests :: "string \<rightharpoonup> real list"

definition RateLimiter_init :: "int \<Rightarrow> RateLimiter" where
  "RateLimiter_init rate = \<lparr>rate_per_minute = rate, requests = Map.empty\<rparr>"

definition stored :: "RateLimiter \<Rightarrow> string \<Rightarrow> real list" where
  "stored rl key = (case requests rl key of None \<Rightarrow> [] | Some tss \<Rightarrow> tss)"

text \<open>
  \<^verbatim>\<open>check_rate_limit(key)\<close>, with the reading of \<^verbatim>\<open>time.time()\<close> as the argument \<open>now\<close>.
  The body runs under \<^verbatim>\<open>self.lock\<close>, so it is one atomic step on the limiter's state.
\<close>

definition check_rate_limit :: "RateLimiter \<Rightarrow> string \<Rightarrow> real \<Rightarrow> bool \<times> RateLimiter" where
  "check_rate_limit rl key now =
     (let window_start = now - 60;
          kept = filter (\<lambda>ts. ts > window_start) (stored rl key)
      in if int (length kept) \<ge> rate_per_minute rl
         then (False, rl\<lparr>requests := (requests rl)(key \<mapsto> kept)\<rparr>)
         else (True, rl\<lparr>requests := (requests rl)(key \<mapsto> kept @ [now])\<rparr>))"

text \<open>A caller that checks the same key at each clock reading of a list, in order.\<close>

fun check_all :: "RateLimiter \<Rightarrow> string \<Rightarrow> real list \<Rightarrow> bool list \<times> RateLimiter" where
  "check_all rl key [] = ([], rl)"
| "check_all rl key (now # nows) =
     (let (ok, rl') = check_rate_limit rl key now;
          (oks, rl'') = check_all rl' key nows
      in (ok # oks, rl''))"

text \<open>
  The limiter as the server uses it: any sequence of checks, each for some key at some
  clock reading, threaded through the one shared limiter.
\<close>

definition serve :: "RateLimiter \<Rightarrow> (string \<times> real) list \<Rightarrow> RateLimiter" where
  "serve rl calls = foldl (\<lambda>st (key, now). snd (check_rate_limit st key now)) rl calls"

subsection \<open>Configuration\<close>

record Configuration =
  API_URL :: string
  API_KEY :: string
  UPSTREAM_MODEL_NAME :: string
  SERVER_PORT :: int
  SERVER_HOST :: string
  MAX_WORKERS :: int
  REQUEST_TIMEOUT :: int
  KEEPALIVE_TIMEOUT :: int
  LOG_LEVEL :: string
  RATE_LIMIT_PER_MINUTE :: int
  ENABLE_METRICS :: bool
  MAX_RETRIES :: int
  RETRY_DELAY :: real

text \<open>
  The exceptions the code raises, catches or lets through, each with the text that
  \<^verbatim>\<open>str(e)\<close> gives. \<open>TimeoutError\<close> is \<^verbatim>\<open>asyncio.TimeoutError\<close>, \<open>ClientError\<close> is
  \<^verbatim>\<open>aiohttp.ClientError\<close>, \<open>OtherException\<close> is any other subclass of \<^verbatim>\<open>Exception\<close>.
  \<open>CancelledError\<close> is the only one that is not a subclass of \<^verbatim>\<open>Exception\<close>. An exception
  that is both a timeout and a client error (\<^verbatim>\<open>aiohttp.ServerTimeoutError\<close>) is a
  \<open>TimeoutError\<close> here: the retry loop treats the two alike, and
  \<^verbatim>\<open>proxy_chat_completion\<close> tries the timeout clause first.
\<close>

datatype exn =
    ValueError string
  | TypeError string
  | UnicodeDecodeError string
  | JSONDecodeError string
  | RecursionError string
  | TimeoutError string
  | ClientError string
  | OtherException string
  | CancelledError

fun str_exn :: "exn \<Rightarrow> string" where
  "str_exn (ValueError m) = m"
| "str_exn (TypeError m) = m"
| "str_exn (UnicodeDecodeError m) = m"
| "str_exn (JSONDecodeError m) = m"
| "str_exn (RecursionError m) = m"
| "str_exn (TimeoutError m) = m"
| "str_exn (ClientError m) = m"
| "str_exn (OtherException m) = m"
| "str_exn CancelledError = []"

text \<open>
  The defaults of \<^verbatim>\<open>Configuration.__init__\<close>, with a key where the environment has to give
  one (the default, the empty string, does not pass validation).
\<close>

definition example_config :: Configuration where
  "example_config =
     \<lparr>API_URL = ''https://api.zaguanai.com/v1'', API_KEY = ''sk-example'',
      UPSTREAM_MODEL_NAME = ''promptshield/gemini-flash-lite-latest'',
      SERVER_PORT = 8000, SERVER_HOST = ''0.0.0.0'', MAX_WORKERS = 100,
      REQUEST_TIMEOUT = 60, KEEPALIVE_TIMEOUT = 5, LOG_LEVEL = ''INFO'',
      RATE_LIMIT_PER_MINUTE = 60, ENABLE_METRICS = True, MAX_RETRIES = 3, RETRY_DELAY = 1\<rparr>"

text \<open>\<^verbatim>\<open>Configuration._validate\<close>: the first failing check raises \<^verbatim>\<open>ValueError\<close>.\<close>

definition validate :: "Configuration \<Rightarrow> exn + unit" where
  "validate c =
     (if API_URL c = [] then Inl (ValueError ''API_URL must be set'')
      else if API_KEY c = [] then Inl (ValueError ''API_KEY must be set'')
      else if UPSTREAM_MODEL_NAME c = [] then Inl (ValueError ''MODEL_NAME must be set'')
      else if SERVER_PORT c < 1 \<or> SERVER_PORT c > 65535
        then Inl (ValueError ''PORT must be between 1 and 65535'')
      else if MAX_WORKERS c < 1 then Inl (ValueError ''MAX_WORKERS must be at least 1'')
      else if REQUEST_TIMEOUT c < 1 then Inl (ValueError ''REQUEST_TIMEOUT must be at least 1'')
      else if LOG_LEVEL c \<notin> set [''DEBUG'', ''INFO'', ''WARNING'', ''ERROR'', ''CRITICAL'']
        then Inl (ValueError (''Invalid LOG_LEVEL: '' @ LOG_LEVEL c))
      else Inr ())"

subsection \<open>JSON values, messages and requests\<close>

text \<open>
  The values of Python's \<^verbatim>\<open>json\<close> module: \<^verbatim>\<open>None\<close>, booleans, integers, floats, strings,
  lists, and dictionaries (in insertion order). The module's parser and printer
  belong to the standard library, not to this program: wherever the code calls
  \<^verbatim>\<open>json.loads\<close> the embedding takes a parser \<open>loads\<close> as a parameter. A parser returns a
  value or raises: \<^verbatim>\<open>json.JSONDecodeError\<close> for a text that is not JSON, and other
  exceptions besides (\<^verbatim>\<open>RecursionError\<close> for a text nested too deeply, \<^verbatim>\<open>ValueError\<close> for
  an integer with too many digits). The \<^verbatim>\<open>except json.JSONDecodeError\<close> clauses of the code
  catch the first kind only.
\<close>

datatype json =
    JNull
  | JBool bool
  | JInt int
  | JFloat real
  | JStr string
  | JArr "json list"
  | JObj "(string \<times> json) list"

text \<open>
  One entry of \<^verbatim>\<open>messages\<close> as \<^verbatim>\<open>model_dump(exclude_none=True)\<close> leaves a validated
  \<^verbatim>\<open>ChatMessage\<close>: the keys \<^verbatim>\<open>role\<close> and \<^verbatim>\<open>content\<close>, and the keys \<^verbatim>\<open>name\<close> and
  \<^verbatim>\<open>function_call\<close> only when they are set.
\<close>

record message =
  role :: string
  content :: string
  name :: "string option"
  function_call :: "json option"

text \<open>
  The dictionary \<^verbatim>\<open>request_data\<close>. The code writes the key \<^verbatim>\<open>model\<close>, reads the key
  \<^verbatim>\<open>messages\<close> with a default and writes it back; every other key (the sampling
  parameters) is carried along untouched.
\<close>

record request_data =
  model :: "string option"
  messages :: "message list option"
  params :: "(string \<times> json) list"

record PersonalityDefinition =
  personality_id :: string
  system_prompt :: string
  created :: int
  owned_by :: string

text \<open>What one call of \<^verbatim>\<open>session.post(url, json=request_data, headers=headers)\<close> sends.\<close>

record http_request =
  url :: string
  json_body :: request_data
  headers :: "(string \<times> string) list"

fun is_json_decode_error :: "exn \<Rightarrow> bool" where
  "is_json_decode_error (JSONDecodeError m) = True"
| "is_json_decode_error e = False"

subsection \<open>The upstream stream and response\<close>

text \<open>
  What iterating \<^verbatim>\<open>response.content\<close> delivers, one item per step: a byte line, given by
  the text that \<^verbatim>\<open>line.decode('utf-8')\<close> returns for it (\<open>Line\<close>; the empty text is the empty
  byte string); a byte line that is not valid UTF-8, for which \<^verbatim>\<open>decode\<close> raises
  (\<open>Undecodable\<close>, with the error's text); or an exception raised by the iteration itself
  (\<open>Fails\<close>). The list ends where the upstream ends the body.
\<close>

datatype upstream_item = Line string | Undecodable string | Fails exn

text \<open>
  An \<^verbatim>\<open>aiohttp.ClientResponse\<close> as this program observes it: its status, the outcome of
  awaiting \<^verbatim>\<open>response.text()\<close>, the line stream \<^verbatim>\<open>response.content\<close>, and whether it is
  closed.
\<close>

record ClientResponse =
  status :: int
  text_body :: "exn + string"
  content_lines :: "upstream_item list"
  closed :: bool

subsection \<open>UpstreamAPIClient\<close>

text \<open>
  The trace of a retried request: each call of \<^verbatim>\<open>request_func\<close> with its attempt index and
  what the call sent, and each \<^verbatim>\<open>asyncio.sleep(delay)\<close>.
\<close>

datatype 'e event = Attempt nat 'e | Sleep real

fun is_transport_error :: "exn \<Rightarrow> bool" where
  "is_transport_error (ClientError m) = True"
| "is_transport_error (TimeoutError m) = True"
| "is_transport_error e = False"

text \<open>
  The statement \<^verbatim>\<open>raise last_exception\<close>. When \<^verbatim>\<open>last_exception\<close> is still \<^verbatim>\<open>None\<close>, Python
  raises \<^verbatim>\<open>TypeError\<close> in its place.
\<close>

fun raise_last :: "exn option \<Rightarrow> exn" where
  "raise_last (Some e) = e"
| "raise_last None = TypeError ''exceptions must derive from BaseException''"

text \<open>
  The loop \<^verbatim>\<open>for attempt in range(max_retries)\<close> of \<^verbatim>\<open>_retry_request\<close>, followed by its
  final \<^verbatim>\<open>raise\<close>. \<open>remaining\<close> counts the iterations the range still has; \<open>request_func\<close>
  maps the index of a call to what the call sent and what it returned or raised.
\<close>

fun attempts ::
  "real \<Rightarrow> int \<Rightarrow> (nat \<Rightarrow> 'e \<times> (exn + 'a)) \<Rightarrow> nat \<Rightarrow> nat \<Rightarrow> exn option
     \<Rightarrow> (exn + 'a) \<times> 'e event list" where
  "attempts retry_delay max_retries request_func 0 attempt last_exception =
     (Inl (raise_last last_exception), [])"
| "attempts retry_delay max_retries request_func (Suc remaining) attempt last_exception =
     (case request_func attempt of
        (sent, Inr result) \<Rightarrow> (Inr result, [Attempt attempt sent])
      | (sent, Inl e) \<Rightarrow>
          if is_transport_error e then
            (let slept = (if int attempt < max_retries - 1
                          then [Sleep (retry_delay * 2 ^ attempt)] else []);
                 (outcome, later) =
                    attempts retry_delay max_retries request_func remaining (Suc attempt) (Some e)
             in (outcome, Attempt attempt sent # slept @ later))
          else (Inl e, [Attempt attempt sent]))"

text \<open>
  \<^verbatim>\<open>_retry_request(request_func, max_retries=None)\<close>. The first line is
  \<^verbatim>\<open>max_retries = max_retries or self.config.MAX_RETRIES\<close>: an argument that is \<^verbatim>\<open>None\<close> or
  \<^verbatim>\<open>0\<close> gives way to the configured value.
\<close>

definition resolved_max_retries :: "Configuration \<Rightarrow> int option \<Rightarrow> int" where
  "resolved_max_retries config max_retries_arg =
     (case max_retries_arg of
        None \<Rightarrow> MAX_RETRIES config
      | Some n \<Rightarrow> if n = 0 then MAX_RETRIES config else n)"

definition retry_request ::
  "Configuration \<Rightarrow> (nat \<Rightarrow> 'e \<times> (exn + 'a)) \<Rightarrow> int option \<Rightarrow> (exn + 'a) \<times> 'e event list" where
  "retry_request config request_func max_retries_arg =
     (let max_retries = resolved_max_retries config max_retries_arg
      in attempts (RETRY_DELAY config) max_retries request_func (nat max_retries) 0 None)"

text \<open>Reading a trace: the indices of the calls made, and the delays slept, in order.\<close>

fun attempt_indices :: "'e event list \<Rightarrow> nat list" where
  "attempt_indices [] = []"
| "attempt_indices (Attempt i sent # evs) = i # attempt_indices evs"
| "attempt_indices (Sleep d # evs) = attempt_indices evs"

fun sleeps :: "'e event list \<Rightarrow> real list" where
  "sleeps [] = []"
| "sleeps (Attempt i sent # evs) = sleeps evs"
| "sleeps (Sleep d # evs) = d # sleeps evs"

fun sent_requests :: "'e event list \<Rightarrow> 'e list" where
  "sent_requests [] = []"
| "sent_requests (Attempt i sent # evs) = sent # sent_requests evs"
| "sent_requests (Sleep d # evs) = sent_requests evs"

text \<open>
  A request function for examples: its first \<open>n\<close> calls raise a connection error, every
  later call returns \<open>r\<close>.
\<close>

definition flaky :: "nat \<Rightarrow> 'a \<Rightarrow> nat \<Rightarrow> unit \<times> (exn + 'a)" where
  "flaky n r i = ((), if i < n then Inl (ClientError ''connection refused'') else Inr r)"

definition rstrip_slash :: "string \<Rightarrow> string" where
  "rstrip_slash s = rev (dropWhile (\<lambda>c. c = CHR ''/'') (rev s))"

text \<open>
  The part of \<^verbatim>\<open>proxy_chat_completion\<close> before its \<^verbatim>\<open>try\<close>: the rewriting of
  \<^verbatim>\<open>request_data\<close> and the request that every call of \<^verbatim>\<open>make_request\<close> posts.
\<close>

definition outbound_request ::
  "Configuration \<Rightarrow> request_data \<Rightarrow> PersonalityDefinition \<Rightarrow> string \<Rightarrow> http_request" where
  "outbound_request config request_data personality request_id =
     (let url' = rstrip_slash (API_URL config) @ ''/chat/completions'';
          request_data1 = request_data\<lparr>model := Some (UPSTREAM_MODEL_NAME config)\<rparr>;
          messages0 = (case messages request_data1 of None \<Rightarrow> [] | Some ms \<Rightarrow> ms);
          has_system = list_ex (\<lambda>msg. role msg = ''system'') messages0;
          messages1 = (if \<not> has_system
                       then \<lparr>role = ''system'', content = system_prompt personality,
                             name = None, function_call = None\<rparr> # messages0
                       else messages0);
          request_data2 = request_data1\<lparr>messages := Some messages1\<rparr>;
          headers' = [(''Content-Type'', ''application/json''),
                      (''Authorization'', ''Bearer '' @ API_KEY config),
                      (''X-Request-ID'', request_id)]
      in \<lparr>url = url', json_body = request_data2, headers = headers'\<rparr>)"

definition error_envelope :: "string \<Rightarrow> string \<Rightarrow> int \<Rightarrow> json" where
  "error_envelope msg kind code =
     JObj [(''error'', JObj [(''message'', JStr msg), (''type'', JStr kind), (''code'', JInt code)])]"

text \<open>
  The \<^verbatim>\<open>except\<close> clauses of \<^verbatim>\<open>proxy_chat_completion\<close>, in the order of the source. What the
  function returns is the pair \<^verbatim>\<open>(response, error)\<close>, with \<open>JNull\<close> for an error that is
  \<^verbatim>\<open>None\<close>; \<open>CancelledError\<close> is caught by no clause and leaves the function.
\<close>

fun on_exception :: "exn \<Rightarrow> exn + (ClientResponse option \<times> json)" where
  "on_exception (TimeoutError m) =
     Inr (None, error_envelope ''Request to upstream API timed out'' ''timeout_error'' 504)"
| "on_exception (ClientError m) =
     Inr (None, error_envelope (''Failed to connect to upstream API: '' @ m) ''connection_error'' 502)"
| "on_exception CancelledError = Inl CancelledError"
| "on_exception e =
     Inr (None, error_envelope (''Unexpected error: '' @ str_exn e) ''internal_error'' 500)"

text \<open>
  \<^verbatim>\<open>proxy_chat_completion\<close>. \<open>post\<close> is the transport: \<open>post i req\<close> is what the \<open>i\<close>-th call of
  \<^verbatim>\<open>session.post\<close> returns or raises when it sends \<open>req\<close>. The inner \<^verbatim>\<open>try\<close> around
  \<^verbatim>\<open>json.loads(error_text)\<close> catches \<^verbatim>\<open>json.JSONDecodeError\<close> only; any other exception of the
  parser goes to the outer \<^verbatim>\<open>except\<close> clauses.
\<close>

definition proxy_chat_completion ::
  "(string \<Rightarrow> exn + json) \<Rightarrow> Configuration \<Rightarrow> (nat \<Rightarrow> http_request \<Rightarrow> exn + ClientResponse)
     \<Rightarrow> request_data \<Rightarrow> PersonalityDefinition \<Rightarrow> string
     \<Rightarrow> (exn + (ClientResponse option \<times> json)) \<times> http_request event list" where
  "proxy_chat_completion loads config post request_data personality request_id =
     (let req = outbound_request config request_data personality request_id;
          make_request = (\<lambda>attempt. (req, post attempt req));
          (outcome, trace) = retry_request config make_request None
      in (case outcome of
            Inr response \<Rightarrow>
              if status response \<ge> 400 then
                (case text_body response of
                   Inr error_text \<Rightarrow>
                     (case loads error_text of
                        Inr error_data \<Rightarrow> Inr (None, error_data)
                      | Inl e \<Rightarrow>
                          if is_json_decode_error e
                          then Inr (None, error_envelope error_text ''upstream_error''
                                            (status response))
                          else on_exception e)
                 | Inl e \<Rightarrow> on_exception e)
              else Inr (Some response, JNull)
          | Inl e \<Rightarrow> on_exception e,
          trace))"

subsection \<open>StreamProcessor\<close>

text \<open>
  \<^verbatim>\<open>str.strip()\<close> removes the white space of Python from both ends: among the code points
  a character can stand for, these are 9 to 13, 28 to 32, 133 and 160.
\<close>

definition py_isspace :: "char \<Rightarrow> bool" where
  "py_isspace c = ((of_char c :: nat) \<in> set [9, 10, 11, 12, 13, 28, 29, 30, 31, 32, 133, 160])"

definition py_strip :: "string \<Rightarrow> string" where
  "py_strip s = rev (dropWhile py_isspace (rev (dropWhile py_isspace s)))"

text \<open>\<^verbatim>\<open>sub in s\<close> for two strings: \<open>sub\<close> occurs in \<open>s\<close> as a contiguous run.\<close>

fun py_contains :: "string \<Rightarrow> string \<Rightarrow> bool" where
  "py_contains sub [] = (sub = [])"
| "py_contains sub (c # cs) = (prefix sub (c # cs) \<or> py_contains sub cs)"

text \<open>
  The two statements \<^verbatim>\<open>if "model" in chunk_data: chunk_data["model"] = requested_model_id\<close>
  on whatever \<^verbatim>\<open>json.loads\<close> returned. On a dictionary the key is overwritten in place when
  it is present. On a list or a string the membership test succeeds or not, and the
  assignment then raises \<^verbatim>\<open>TypeError\<close>; on a number, a boolean or \<^verbatim>\<open>None\<close> the membership
  test itself raises \<^verbatim>\<open>TypeError\<close>.
\<close>

fun rewrite_model :: "string \<Rightarrow> json \<Rightarrow> exn + json" where
  "rewrite_model requested_model_id (JObj kvs) =
     Inr (if ''model'' \<in> fst ` set kvs
          then JObj (AList.update ''model'' (JStr requested_model_id) kvs)
          else JObj kvs)"
| "rewrite_model requested_model_id (JArr xs) =
     (if JStr ''model'' \<in> set xs
      then Inl (TypeError ''list indices must be integers or slices, not str'')
      else Inr (JArr xs))"
| "rewrite_model requested_model_id (JStr s) =
     (if py_contains ''model'' s
      then Inl (TypeError '''str' object does not support item assignment'')
      else Inr (JStr s))"
| "rewrite_model requested_model_id (JInt n) =
     Inl (TypeError ''argument of type 'int' is not iterable'')"
| "rewrite_model requested_model_id (JFloat x) =
     Inl (TypeError ''argument of type 'float' is not iterable'')"
| "rewrite_model requested_model_id (JBool b) =
     Inl (TypeError ''argument of type 'bool' is not iterable'')"
| "rewrite_model requested_model_id JNull =
     Inl (TypeError ''argument of type 'NoneType' is not iterable'')"

text \<open>
  A frame is one string that the generator yields. A data frame is the string
  \<^verbatim>\<open>f"data: {json.dumps(payload, ensure_ascii=...)}\n\n"\<close>; it is kept as the payload handed
  to \<^verbatim>\<open>json.dumps\<close> and the flag, and \<open>render\<close> gives its text for a printer \<open>dumps\<close>.
\<close>

datatype frame = Raw string | Data bool json

fun render :: "(bool \<Rightarrow> json \<Rightarrow> string) \<Rightarrow> frame \<Rightarrow> string" where
  "render dumps (Raw s) = s"
| "render dumps (Data ensure_ascii payload) =
     ''data: '' @ dumps ensure_ascii payload @ ''\<newline>\<newline>''"

text \<open>
  One pass of the loop body over a decoded line: the frames it yields and how the
  iteration goes on (\<^verbatim>\<open>continue\<close> or the end of the body, \<^verbatim>\<open>break\<close>, or an exception).
  The inner \<^verbatim>\<open>try\<close> catches \<^verbatim>\<open>json.JSONDecodeError\<close> only: any other exception of the parser,
  and the \<^verbatim>\<open>TypeError\<close> of the rewriting, leave the loop body.
\<close>

datatype step = Continue "frame list" | Break "frame list" | Raise exn

definition process_line :: "(string \<Rightarrow> exn + json) \<Rightarrow> string \<Rightarrow> string \<Rightarrow> step" where
  "process_line loads requested_model_id line =
     (if line = [] then Continue []
      else let line_str = py_strip line in
        if line_str = [] then Continue [Raw ''\<newline>'']
        else if prefix ''data: '' line_str then
          (let data_content = py_strip (drop 6 line_str) in
             if data_content = ''[DONE]'' then Break [Raw ''data: [DONE]\<newline>\<newline>'']
             else (case loads data_content of
                     Inr chunk_data \<Rightarrow>
                       (case rewrite_model requested_model_id chunk_data of
                          Inr chunk_data' \<Rightarrow> Continue [Data False chunk_data']
                        | Inl e \<Rightarrow> Raise e)
                   | Inl e \<Rightarrow>
                       if is_json_decode_error e
                       then Continue [Raw (line_str @ ''\<newline>\<newline>'')]
                       else Raise e))
        else Continue [Raw (line_str @ ''\<newline>\<newline>'')])"

definition stream_error_chunk :: "exn \<Rightarrow> json" where
  "stream_error_chunk e =
     JObj [(''error'', JObj [(''message'', JStr (''Stream processing error: '' @ str_exn e)),
                             (''type'', JStr ''stream_error'')])]"

text \<open>
  The two \<^verbatim>\<open>except\<close> clauses around the loop: \<open>CancelledError\<close> is raised again, every other
  exception becomes one last data frame. The second component is the exception that
  leaves the generator, if any.
\<close>

fun on_stream_exception :: "exn \<Rightarrow> frame list \<times> exn option" where
  "on_stream_exception CancelledError = ([], Some CancelledError)"
| "on_stream_exception e = ([Data True (stream_error_chunk e)], None)"

fun relay :: "(string \<Rightarrow> exn + json) \<Rightarrow> string \<Rightarrow> upstream_item list \<Rightarrow> frame list \<times> exn option" where
  "relay loads requested_model_id [] = ([], None)"
| "relay loads requested_model_id (Fails e # rest) = on_stream_exception e"
| "relay loads requested_model_id (Undecodable m # rest) = on_stream_exception (UnicodeDecodeError m)"
| "relay loads requested_model_id (Line line # rest) =
     (case process_line loads requested_model_id line of
        Continue fs \<Rightarrow>
          (let (gs, raised) = relay loads requested_model_id rest in (fs @ gs, raised))
      | Break fs \<Rightarrow> (fs, None)
      | Raise e \<Rightarrow> on_stream_exception e)"

text \<open>
  \<^verbatim>\<open>process_stream\<close>, consumed to its end: the frames it yields, the exception that leaves
  it, and the response after the \<^verbatim>\<open>finally\<close> clause has closed it. \<open>process_stream_text\<close>
  is the same sequence as the strings the caller receives.
\<close>

definition process_stream ::
  "(string \<Rightarrow> exn + json) \<Rightarrow> ClientResponse \<Rightarrow> string \<Rightarrow> string
     \<Rightarrow> frame list \<times> exn option \<times> ClientResponse" where
  "process_stream loads response requested_model_id request_id =
     (let (frames, raised) = relay loads requested_model_id (content_lines response)
      in (frames, raised, response\<lparr>closed := True\<rparr>))"

definition process_stream_text ::
  "(string \<Rightarrow> exn + json) \<Rightarrow> (bool \<Rightarrow> json \<Rightarrow> string) \<Rightarrow> ClientResponse \<Rightarrow> string \<Rightarrow> string
     \<Rightarrow> string list" where
  "process_stream_text loads dumps response requested_model_id request_id =
     map (render dumps) (fst (process_stream loads response requested_model_id request_id))"

text \<open>
  For stating properties of a line in the middle of a stream: an item passes when the
  loop goes on after it, \<open>frames_of\<close> are the frames the loop yields for it, and
  \<open>raised_at\<close> is the exception it makes the loop body raise.
\<close>

fun passes :: "(string \<Rightarrow> exn + json) \<Rightarrow> string \<Rightarrow> upstream_item \<Rightarrow> bool" where
  "passes loads requested_model_id (Line line) =
     (case process_line loads requested_model_id line of Continue fs \<Rightarrow> True | _ \<Rightarrow> False)"
| "passes loads requested_model_id item = False"

fun frames_of :: "(string \<Rightarrow> exn + json) \<Rightarrow> string \<Rightarrow> upstream_item \<Rightarrow> frame list" where
  "frames_of loads requested_model_id (Line line) =
     (case process_line loads requested_model_id line of
        Continue fs \<Rightarrow> fs | Break fs \<Rightarrow> fs | Raise e \<Rightarrow> [])"
| "frames_of loads requested_model_id item = []"



text \<open>
  A parser for examples. It knows three payloads, runs out of stack on a text of at
  least 100000 opening brackets, as the interpreter does on a text nested that deeply,
  and rejects every other text as not being JSON.
\<close>

definition sample_loads :: "string \<Rightarrow> exn + json" where
  "sample_loads s =
     (if s = ''{\"id\": \"c1\", \"model\": \"upstream-x\"}''
        then Inr (JObj [(''id'', JStr ''c1''), (''model'', JStr ''upstream-x'')])
      else if s = ''{\"error\": {\"message\": \"bad\", \"type\": \"invalid_request_error\", \"code\": 400}}''
        then Inr (JObj [(''error'', JObj [(''message'', JStr ''bad''),
                                          (''type'', JStr ''invalid_request_error''),
                                          (''code'', JInt 400)])])
      else if s = ''null'' then Inr JNull
      else if 100000 \<le> length s \<and> list_all (\<lambda>c. c = CHR ''['') s
        then Inl (RecursionError ''maximum recursion depth exceeded'')
      else Inl (JSONDecodeError ''Expecting value''))"


section \<open>Properties of the rate limiter\<close>

lemma stored_after_check:
  "stored (snd (check_rate_limit rl key now)) key =
     (if rate_per_minute rl \<le> int (length (filter (\<lambda>ts. now - 60 < ts) (stored rl key)))
      then filter (\<lambda>ts. now - 60 < ts) (stored rl key)
      else filter (\<lambda>ts. now - 60 < ts) (stored rl key) @ [now])"
  by (simp add: check_rate_limit_def stored_def Let_def)

lemma stored_other_key:
  "key' \<noteq> key \<Longrightarrow> stored (snd (check_rate_limit rl key now)) key' = stored rl key'"
  by (simp add: check_rate_limit_def stored_def Let_def)

lemma rate_after_check:
  "rate_per_minute (snd (check_rate_limit rl key now)) = rate_per_minute rl"
  by (simp add: check_rate_limit_def Let_def)

lemma allowed_iff:
  "fst (check_rate_limit rl key now) \<longleftrightarrow>
     int (length (filter (\<lambda>ts. now - 60 < ts) (stored rl key))) < rate_per_minute rl"
  by (auto simp: check_rate_limit_def Let_def)

lemma check_all_Cons:
  "fst (check_all rl key (now # nows)) =
     fst (check_rate_limit rl key now) # fst (check_all (snd (check_rate_limit rl key now)) key nows)"
  "snd (check_all rl key (now # nows)) = snd (check_all (snd (check_rate_limit rl key now)) key nows)"
  by (simp_all add: split_beta Let_def)

lemma rate_after_check_all:
  "rate_per_minute (snd (check_all rl key nows)) = rate_per_minute rl"
  by (induction nows arbitrary: rl) (simp_all add: check_all_Cons rate_after_check del: check_all.simps(2))

lemma filter_window_all:
  "\<forall>ts\<in>set xs. now - 60 < ts \<Longrightarrow> filter (\<lambda>ts. now - 60 < ts) xs = xs"
  by (induction xs) auto

lemma burst_general:
  "\<forall>a\<in>set (stored rl key @ nows). \<forall>b\<in>set (stored rl key @ nows). b - a < 60 \<Longrightarrow>
   fst (check_all rl key nows) =
     map (\<lambda>i. int (length (stored rl key) + i) < rate_per_minute rl) [0..<length nows]"
proof (induction nows arbitrary: rl)
  case Nil
  then show ?case by simp
next
  case (Cons now nows)
  let ?rl' = "snd (check_rate_limit rl key now)"
  have keep: "filter (\<lambda>ts. now - 60 < ts) (stored rl key) = stored rl key"
  proof (rule filter_window_all, rule ballI)
    fix ts assume "ts \<in> set (stored rl key)"
    then have "now - ts < 60" using Cons.prems by simp
    then show "now - 60 < ts" by simp
  qed
  show ?case
  proof (cases "int (length (stored rl key)) < rate_per_minute rl")
    case True
    then have st: "stored ?rl' key = stored rl key @ [now]"
      by (simp add: stored_after_check keep)
    have win: "\<forall>a\<in>set (stored ?rl' key @ nows). \<forall>b\<in>set (stored ?rl' key @ nows). b - a < 60"
      using Cons.prems unfolding st by auto
    have "fst (check_all ?rl' key nows) =
        map (\<lambda>i. int (length (stored ?rl' key) + i) < rate_per_minute ?rl') [0..<length nows]"
      by (rule Cons.IH [OF win])
    then have rest: "fst (check_all ?rl' key nows) =
        map (\<lambda>i. int (length (stored rl key) + Suc i) < rate_per_minute rl) [0..<length nows]"
      by (simp add: st rate_after_check)
    have "fst (check_rate_limit rl key now)"
      using True by (simp add: allowed_iff keep)
    have idx: "[0..<length (now # nows)] = 0 # map Suc [0..<length nows]"
      by (simp add: upt_conv_Cons map_Suc_upt del: upt_Suc)
    show ?thesis
      unfolding check_all_Cons idx rest
      using \<open>fst (check_rate_limit rl key now)\<close> True by (simp add: comp_def algebra_simps)
  next
    case False
    then have st: "stored ?rl' key = stored rl key"
      by (simp add: stored_after_check keep)
    have win: "\<forall>a\<in>set (stored ?rl' key @ nows). \<forall>b\<in>set (stored ?rl' key @ nows). b - a < 60"
      using Cons.prems unfolding st by auto
    have "fst (check_all ?rl' key nows) =
        map (\<lambda>i. int (length (stored ?rl' key) + i) < rate_per_minute ?rl') [0..<length nows]"
      by (rule Cons.IH [OF win])
    then have rest: "fst (check_all ?rl' key nows) =
        map (\<lambda>i. int (length (stored rl key) + i) < rate_per_minute rl) [0..<length nows]"
      by (simp add: st rate_after_check)
    have no: "\<not> fst (check_rate_limit rl key now)"
      using False by (simp add: allowed_iff keep)
    have allF: "map (\<lambda>i. int (length (stored rl key) + i) < rate_per_minute rl) xs = map (\<lambda>i. False) xs" for xs
      using False by auto
    show ?thesis
      unfolding check_all_Cons rest allF using no by (simp add: map_replicate_const del: upt_Suc)
  qed
qed

lemma map_lt_replicate:
  "map (\<lambda>i. int i < r) [0..<n] = replicate (min n (nat r)) True @ replicate (n - nat r) False"
proof (induction n)
  case 0
  then show ?case by simp
next
  case (Suc n)
  show ?case
  proof (cases "int n < r")
    case True
    then have "n < nat r" by simp
    then have "min (Suc n) (nat r) = Suc n" "min n (nat r) = n" "Suc n - nat r = 0" "n - nat r = 0"
      by simp_all
    then show ?thesis using Suc True by (simp add: replicate_append_same)
  next
    case False
    then have "nat r \<le> n" by simp
    then have "min (Suc n) (nat r) = nat r" "min n (nat r) = nat r" "Suc n - nat r = Suc (n - nat r)"
      by simp_all
    then show ?thesis using Suc False by (simp add: replicate_append_same)
  qed
qed

lemma burst_fresh:
  assumes "stored rl key = []" and "\<forall>a\<in>set nows. \<forall>b\<in>set nows. b - a < 60"
  shows "fst (check_all rl key nows) =
     replicate (min (length nows) (nat (rate_per_minute rl))) True
     @ replicate (length nows - nat (rate_per_minute rl)) False"
proof -
  have "fst (check_all rl key nows) =
     map (\<lambda>i. int (length (stored rl key) + i) < rate_per_minute rl) [0..<length nows]"
    by (rule burst_general) (use assms in simp)
  then show ?thesis
    by (simp add: assms(1) map_lt_replicate)
qed

lemma stored_check_subset:
  "set (stored (snd (check_rate_limit rl key now)) key) \<subseteq> insert now (set (stored rl key))"
  by (auto simp: stored_after_check)

lemma stored_check_all_subset:
  "set (stored (snd (check_all rl key nows)) key) \<subseteq> set (stored rl key) \<union> set nows"
proof (induction nows arbitrary: rl)
  case Nil
  then show ?case by simp
next
  case (Cons now nows)
  show ?case
    using Cons.IH [of "snd (check_rate_limit rl key now)"] stored_check_subset [of rl key now]
    by (auto simp: check_all_Cons simp del: check_all.simps(2))
qed

lemma expired_admits:
  assumes "0 < rate_per_minute rl" and "\<forall>ts\<in>set (stored rl key). ts + 60 \<le> now"
  shows "fst (check_rate_limit rl key now)"
proof -
  have "filter (\<lambda>ts. now - 60 < ts) (stored rl key) = []"
    using assms(2) by (auto simp: filter_empty_conv)
  then show ?thesis using assms(1) by (simp add: allowed_iff)
qed


lemma serve_snoc:
  "serve rl (calls @ [(key, now)]) = snd (check_rate_limit (serve rl calls) key now)"
  by (simp add: serve_def)

lemma rate_serve: "rate_per_minute (serve rl calls) = rate_per_minute rl"
  by (induction calls rule: rev_induct) (simp_all add: serve_def rate_after_check split_beta)

lemma bound_preserved:
  assumes "int (length (stored rl k)) \<le> rate_per_minute rl"
  shows "int (length (stored (snd (check_rate_limit rl key now)) k)) \<le> rate_per_minute rl"
proof (cases "k = key")
  case True
  have "int (length (filter (\<lambda>ts. now - 60 < ts) (stored rl key))) \<le> int (length (stored rl key))"
    by simp
  then have "int (length (filter (\<lambda>ts. now - 60 < ts) (stored rl key))) \<le> rate_per_minute rl"
    using assms unfolding True by linarith
  then show ?thesis using True by (simp add: stored_after_check)
next
  case False
  then show ?thesis using assms by (simp add: stored_other_key)
qed

lemma bound_serve:
  assumes "0 \<le> rate"
  shows "int (length (stored (serve (RateLimiter_init rate) calls) k)) \<le> rate"
proof (induction calls rule: rev_induct)
  case Nil
  then show ?case using assms by (simp add: serve_def RateLimiter_init_def stored_def)
next
  case (snoc c calls)
  obtain key now where c: "c = (key, now)" by (cases c)
  have r: "rate_per_minute (serve (RateLimiter_init rate) calls) = rate"
    by (simp add: rate_serve RateLimiter_init_def)
  show ?case
    unfolding c serve_snoc using bound_preserved [of "serve (RateLimiter_init rate) calls" k key now] snoc.IH r
    by simp
qed

lemma window_after_check:
  "\<forall>ts\<in>set (stored (snd (check_rate_limit rl key now)) key). now - 60 < ts"
  by (simp add: stored_after_check)

text \<open>
  Claim C4. A check first drops the clock readings that are not newer than \<open>now - 60\<close>
  from the key's sequence. It answers not-allowed exactly when the number of remaining
  readings is at least the per-minute limit, and then stores the pruned sequence with
  nothing appended; otherwise it appends \<open>now\<close> and answers allowed. Hence, for a fresh
  key and checks that all lie within one 60-second window, the first \<open>limit\<close> checks
  are allowed and every further one is denied; and once the clock has advanced by at
  least 60 seconds past every stored reading and every earlier check, the key is
  admitted again (for a limit of at least one).
\<close>

theorem check_rate_limit_sliding_window:
  "(fst (check_rate_limit rl key now) \<longleftrightarrow>
       int (length (filter (\<lambda>ts. now - 60 < ts) (stored rl key))) < rate_per_minute rl)
   \<and> (\<not> fst (check_rate_limit rl key now) \<longrightarrow>
         stored (snd (check_rate_limit rl key now)) key = filter (\<lambda>ts. now - 60 < ts) (stored rl key))
   \<and> (fst (check_rate_limit rl key now) \<longrightarrow>
         stored (snd (check_rate_limit rl key now)) key = filter (\<lambda>ts. now - 60 < ts) (stored rl key) @ [now])
   \<and> (stored rl key = [] \<and> (\<forall>a\<in>set nows. \<forall>b\<in>set nows. b - a < 60) \<longrightarrow>
         fst (check_all rl key nows) =
           replicate (min (length nows) (nat (rate_per_minute rl))) True
           @ replicate (length nows - nat (rate_per_minute rl)) False)
   \<and> (0 < rate_per_minute rl \<and> (\<forall>t\<in>set (stored rl key @ nows). t + 60 \<le> later) \<longrightarrow>
         fst (check_rate_limit (snd (check_all rl key nows)) key later))"
proof (intro conjI impI)
  show "fst (check_rate_limit rl key now) \<longleftrightarrow>
       int (length (filter (\<lambda>ts. now - 60 < ts) (stored rl key))) < rate_per_minute rl"
    by (rule allowed_iff)
  show "stored (snd (check_rate_limit rl key now)) key = filter (\<lambda>ts. now - 60 < ts) (stored rl key)"
    if "\<not> fst (check_rate_limit rl key now)"
    using that by (simp add: stored_after_check allowed_iff)
  show "stored (snd (check_rate_limit rl key now)) key = filter (\<lambda>ts. now - 60 < ts) (stored rl key) @ [now]"
    if "fst (check_rate_limit rl key now)"
    using that by (simp add: stored_after_check allowed_iff)
  show "fst (check_all rl key nows) =
           replicate (min (length nows) (nat (rate_per_minute rl))) True
           @ replicate (length nows - nat (rate_per_minute rl)) False"
    if "stored rl key = [] \<and> (\<forall>a\<in>set nows. \<forall>b\<in>set nows. b - a < 60)"
    using that by (intro burst_fresh) simp_all
  show "fst (check_rate_limit (snd (check_all rl key nows)) key later)"
    if h: "0 < rate_per_minute rl \<and> (\<forall>t\<in>set (stored rl key @ nows). t + 60 \<le> later)"
  proof (rule expired_admits)
    show "0 < rate_per_minute (snd (check_all rl key nows))"
      using h by (simp add: rate_after_check_all)
    show "\<forall>ts\<in>set (stored (snd (check_all rl key nows)) key). ts + 60 \<le> later"
      using h stored_check_all_subset [of rl key nows] by auto
  qed
qed

theorem check_rate_limit_sliding_window_witness:
  "fst (check_all (RateLimiter_init 2) ''10.0.0.1'' [100, 101, 130]) = [True, True, False]
   \<and> fst (check_rate_limit (snd (check_all (RateLimiter_init 2) ''10.0.0.1'' [100, 101, 130]))
            ''10.0.0.1'' 190)
   \<and> \<not> fst (check_rate_limit (snd (check_all (RateLimiter_init 2) ''10.0.0.1'' [100, 101]))
            ''10.0.0.1'' 130)
   \<and> stored (snd (check_rate_limit (snd (check_all (RateLimiter_init 2) ''10.0.0.1'' [100, 101]))
            ''10.0.0.1'' 130)) ''10.0.0.1'' = [100, 101]"
proof -
  have fresh: "stored (RateLimiter_init 2) ''10.0.0.1'' = []"
    by (simp add: stored_def RateLimiter_init_def)
  have win: "\<forall>a\<in>set [100, 101, 130 :: real]. \<forall>b\<in>set [100, 101, 130]. b - a < 60"
    by simp
  have old: "\<forall>t\<in>set (stored (RateLimiter_init 2) ''10.0.0.1'' @ [100, 101, 130]). t + 60 \<le> 190"
    unfolding fresh by simp
  have rate: "rate_per_minute (RateLimiter_init 2) = 2"
    by (simp add: RateLimiter_init_def)
  note inst = check_rate_limit_sliding_window [of "RateLimiter_init 2" "''10.0.0.1''" _ "[100, 101, 130]" 190]
  have a: "fst (check_all (RateLimiter_init 2) ''10.0.0.1'' [100, 101, 130]) = [True, True, False]"
    using inst fresh win rate by (simp add: numeral_2_eq_2)
  have b: "fst (check_rate_limit (snd (check_all (RateLimiter_init 2) ''10.0.0.1'' [100, 101, 130]))
            ''10.0.0.1'' 190)"
    using inst fresh old rate by simp
  have st: "stored (snd (check_all (RateLimiter_init 2) ''10.0.0.1'' [100, 101])) ''10.0.0.1'' = [100, 101]"
    by (simp add: check_rate_limit_def stored_def RateLimiter_init_def Let_def)
  have r2: "rate_per_minute (snd (check_all (RateLimiter_init 2) ''10.0.0.1'' [100, 101])) = 2"
    by (simp only: rate_after_check_all rate)
  note inst2 = check_rate_limit_sliding_window
    [of "snd (check_all (RateLimiter_init 2) ''10.0.0.1'' [100, 101])" "''10.0.0.1''" 130 "[]" 0]
  have c: "\<not> fst (check_rate_limit (snd (check_all (RateLimiter_init 2) ''10.0.0.1'' [100, 101]))
            ''10.0.0.1'' 130)"
    using inst2 unfolding st r2 by simp
  have d: "stored (snd (check_rate_limit (snd (check_all (RateLimiter_init 2) ''10.0.0.1'' [100, 101]))
            ''10.0.0.1'' 130)) ''10.0.0.1'' = [100, 101]"
    using inst2 c unfolding st r2 by simp
  show ?thesis using a b c d by simp
qed

text \<open>
  Claim C9. After a check completes, the sequence stored for the checked key holds only
  readings strictly newer than \<open>now - 60\<close>, and it is no longer than the per-minute
  limit: the bound is preserved by every call, and it holds after every call in any
  run of the server's limiter that starts from \<^verbatim>\<open>RateLimiter(rate)\<close> with a limit that is
  not negative.
\<close>

theorem check_rate_limit_invariant:
  "(int (length (stored rl key)) \<le> rate_per_minute rl \<longrightarrow>
      (\<forall>ts\<in>set (stored (snd (check_rate_limit rl key now)) key). now - 60 < ts)
      \<and> int (length (stored (snd (check_rate_limit rl key now)) key))
          \<le> rate_per_minute (snd (check_rate_limit rl key now)))
   \<and> (0 \<le> rate \<longrightarrow>
      (\<forall>ts\<in>set (stored (serve (RateLimiter_init rate) (calls @ [(key, now)])) key). now - 60 < ts)
      \<and> int (length (stored (serve (RateLimiter_init rate) (calls @ [(key, now)])) key)) \<le> rate
      \<and> rate_per_minute (serve (RateLimiter_init rate) (calls @ [(key, now)])) = rate)"
proof (intro conjI impI)
  show "\<forall>ts\<in>set (stored (snd (check_rate_limit rl key now)) key). now - 60 < ts"
    by (rule window_after_check)
  show "int (length (stored (snd (check_rate_limit rl key now)) key))
          \<le> rate_per_minute (snd (check_rate_limit rl key now))"
    if "int (length (stored rl key)) \<le> rate_per_minute rl"
    using bound_preserved [OF that, of key now] by (simp add: rate_after_check)
  show "\<forall>ts\<in>set (stored (serve (RateLimiter_init rate) (calls @ [(key, now)])) key). now - 60 < ts"
    unfolding serve_snoc by (rule window_after_check)
  show "int (length (stored (serve (RateLimiter_init rate) (calls @ [(key, now)])) key)) \<le> rate"
    if "0 \<le> rate"
    by (rule bound_serve [OF that])
  show "rate_per_minute (serve (RateLimiter_init rate) (calls @ [(key, now)])) = rate"
    by (simp add: rate_serve RateLimiter_init_def)
qed

theorem check_rate_limit_invariant_witness:
  "(0::int) \<le> 2
   \<and> stored (serve (RateLimiter_init 2)
        ([(''a'', 1), (''b'', 2), (''a'', 3), (''a'', 4)] @ [(''a'', 62)])) ''a'' = [3, 62]
   \<and> list_all (\<lambda>ts. 62 - 60 < ts) (stored (serve (RateLimiter_init 2)
        ([(''a'', 1), (''b'', 2), (''a'', 3), (''a'', 4)] @ [(''a'', 62)])) ''a'')
   \<and> int (length (stored (serve (RateLimiter_init 2)
        ([(''a'', 1), (''b'', 2), (''a'', 3), (''a'', 4)] @ [(''a'', 62)])) ''a'')) \<le> 2"
proof -
  have ev: "stored (serve (RateLimiter_init 2)
        ([(''a'', 1), (''b'', 2), (''a'', 3), (''a'', 4)] @ [(''a'', 62)])) ''a'' = [3, 62]"
    by (simp add: serve_def check_rate_limit_def stored_def RateLimiter_init_def Let_def)
  show ?thesis
    using check_rate_limit_invariant
      [where rate = 2 and calls = "[(''a'', 1), (''b'', 2), (''a'', 3), (''a'', 4)]"
         and key = "''a''" and now = 62] ev
    by (simp add: list_all_iff)
qed
section \<open>Properties of the retry loop\<close>

lemma attempts_sent:
  "Attempt i s \<in> set (snd (attempts d N f remaining a le)) \<Longrightarrow> s = fst (f i)"
proof (induction remaining arbitrary: a le)
  case 0
  then show ?case by simp
next
  case (Suc remaining)
  obtain sent res where fa: "f a = (sent, res)" by (cases "f a")
  show ?case
  proof (cases res)
    case (Inr r)
    with Suc.prems fa show ?thesis by auto
  next
    case (Inl e)
    show ?thesis
    proof (cases "is_transport_error e")
      case True
      with Suc.prems fa Inl have
        "Attempt i s = Attempt a sent \<or> Attempt i s \<in> set (snd (attempts d N f remaining (Suc a) (Some e)))"
        by (auto simp: split_beta Let_def split: if_splits)
      then show ?thesis using Suc.IH fa by auto
    next
      case False
      with Suc.prems fa Inl show ?thesis by auto
    qed
  qed
qed

lemma attempts_success:
  "\<lbrakk>\<forall>i<k. \<exists>e. snd (f (a + i)) = Inl e \<and> is_transport_error e;
    snd (f (a + k)) = Inr r; k < remaining; int (a + k) < N\<rbrakk>
   \<Longrightarrow> attempts d N f remaining a le =
       (Inr r, concat (map (\<lambda>i. [Attempt i (fst (f i)), Sleep (d * 2 ^ i)]) [a..<a + k])
               @ [Attempt (a + k) (fst (f (a + k)))])"
proof (induction k arbitrary: a remaining le)
  case 0
  then obtain rem' where rem: "remaining = Suc rem'" by (cases remaining) auto
  obtain sent res where fa: "f a = (sent, res)" by (cases "f a")
  with 0 show ?case by (simp add: rem)
next
  case (Suc k)
  then obtain rem' where rem: "remaining = Suc rem'" by (cases remaining) auto
  obtain sent res where fa: "f a = (sent, res)" by (cases "f a")
  from Suc.prems(1) have "\<exists>e. snd (f (a + 0)) = Inl e \<and> is_transport_error e" by blast
  then obtain e where e: "res = Inl e" "is_transport_error e" using fa by auto
  have sl: "int a < N - 1" using Suc.prems(4) by simp
  have IH: "attempts d N f rem' (Suc a) (Some e) =
       (Inr r, concat (map (\<lambda>i. [Attempt i (fst (f i)), Sleep (d * 2 ^ i)]) [Suc a..<Suc a + k])
               @ [Attempt (Suc a + k) (fst (f (Suc a + k)))])"
  proof (rule Suc.IH)
    show "\<forall>i<k. \<exists>e. snd (f (Suc a + i)) = Inl e \<and> is_transport_error e"
    proof (intro allI impI)
      fix i assume "i < k"
      then have "Suc i < Suc k" by simp
      with Suc.prems(1) have "\<exists>e. snd (f (a + Suc i)) = Inl e \<and> is_transport_error e" by blast
      then show "\<exists>e. snd (f (Suc a + i)) = Inl e \<and> is_transport_error e" by simp
    qed
    show "snd (f (Suc a + k)) = Inr r" using Suc.prems(2) by simp
    show "k < rem'" using Suc.prems(3) rem by simp
    show "int (Suc a + k) < N" using Suc.prems(4) by simp
  qed
  have up: "[a..<a + Suc k] = a # [Suc a..<Suc a + k]"
    by (simp add: upt_conv_Cons del: upt_Suc)
  show ?case
    unfolding rem up using fa e sl IH by (simp del: upt_Suc)
qed

lemma attempts_all_fail:
  "\<lbrakk>\<forall>i\<le>m. \<exists>e. snd (f (a + i)) = Inl e \<and> is_transport_error e; int a + int m + 1 = N\<rbrakk>
   \<Longrightarrow> attempts d N f (Suc m) a le =
       (snd (f (a + m)),
        concat (map (\<lambda>i. [Attempt i (fst (f i)), Sleep (d * 2 ^ i)]) [a..<a + m])
        @ [Attempt (a + m) (fst (f (a + m)))])"
proof (induction m arbitrary: a le)
  case 0
  obtain sent res where fa: "f a = (sent, res)" by (cases "f a")
  from 0(1) have "\<exists>e. snd (f (a + 0)) = Inl e \<and> is_transport_error e" by blast
  then obtain e where e: "res = Inl e" "is_transport_error e" using fa by auto
  have "\<not> int a < N - 1" using 0(2) by simp
  then show ?case using fa e by simp
next
  case (Suc m)
  obtain sent res where fa: "f a = (sent, res)" by (cases "f a")
  from Suc.prems(1) have "\<exists>e. snd (f (a + 0)) = Inl e \<and> is_transport_error e" by blast
  then obtain e where e: "res = Inl e" "is_transport_error e" using fa by auto
  have sl: "int a < N - 1" using Suc.prems(2) by simp
  have IH: "attempts d N f (Suc m) (Suc a) (Some e) =
       (snd (f (Suc a + m)),
        concat (map (\<lambda>i. [Attempt i (fst (f i)), Sleep (d * 2 ^ i)]) [Suc a..<Suc a + m])
        @ [Attempt (Suc a + m) (fst (f (Suc a + m)))])"
  proof (rule Suc.IH)
    show "\<forall>i\<le>m. \<exists>e. snd (f (Suc a + i)) = Inl e \<and> is_transport_error e"
    proof (intro allI impI)
      fix i assume "i \<le> m"
      then have "Suc i \<le> Suc m" by simp
      with Suc.prems(1) have "\<exists>e. snd (f (a + Suc i)) = Inl e \<and> is_transport_error e" by blast
      then show "\<exists>e. snd (f (Suc a + i)) = Inl e \<and> is_transport_error e" by simp
    qed
    show "int (Suc a) + int m + 1 = N" using Suc.prems(2) by simp
  qed
  have up: "[a..<a + Suc m] = a # [Suc a..<Suc a + m]"
    by (simp add: upt_conv_Cons del: upt_Suc)
  have step: "attempts d N f (Suc (Suc m)) a le =
      (fst (attempts d N f (Suc m) (Suc a) (Some e)),
       Attempt a sent # Sleep (d * 2 ^ a) # snd (attempts d N f (Suc m) (Suc a) (Some e)))"
    using fa e sl by (simp add: attempts.simps(2) [of d N f "Suc m" a le] split_beta Let_def
        del: attempts.simps(2))
  show ?case
    unfolding step IH up using fa by simp
qed

lemma attempt_indices_append:
  "attempt_indices (xs @ ys) = attempt_indices xs @ attempt_indices ys"
  by (induction xs rule: attempt_indices.induct) simp_all

lemma sleeps_append: "sleeps (xs @ ys) = sleeps xs @ sleeps ys"
  by (induction xs rule: sleeps.induct) simp_all

lemma attempt_indices_backoff:
  "attempt_indices (concat (map (\<lambda>i. [Attempt i (g i), Sleep (h i)]) [a..<b])) = [a..<b]"
  by (induction b) (simp_all add: attempt_indices_append)

lemma sleeps_backoff:
  "sleeps (concat (map (\<lambda>i. [Attempt i (g i), Sleep (h i)]) [a..<b])) = map h [a..<b]"
  by (induction b) (simp_all add: sleeps_append)

lemma attempts_bound:
  "length (attempt_indices (snd (attempts d N f remaining a le))) \<le> remaining"
proof (induction remaining arbitrary: a le)
  case 0
  then show ?case by simp
next
  case (Suc remaining)
  obtain sent res where fa: "f a = (sent, res)" by (cases "f a")
  show ?case
    using Suc.IH [of "Suc a"] fa
    by (cases res) (auto simp: split_beta Let_def attempt_indices_append le_SucI)
qed


lemma validate_ignores_retries: "validate (config\<lparr>MAX_RETRIES := n\<rparr>) = validate config"
  by (simp add: validate_def)

text \<open>
  Claim C6. When the calls of \<^verbatim>\<open>request_func\<close> fail with a connection error or a timeout
  and call \<open>k\<close> returns, with \<open>k\<close> below the number of attempts allowed,
  \<^verbatim>\<open>_retry_request\<close> makes the calls \<open>0, ..., k\<close>, sleeps \<^verbatim>\<open>RETRY_DELAY * 2 ** i\<close> after the failed
  call \<open>i\<close>, and returns the result of call \<open>k\<close>. With three attempts allowed, two failures
  and a success on the third call give exactly two retries, with the delays
  \<^verbatim>\<open>RETRY_DELAY\<close> and \<^verbatim>\<open>2 * RETRY_DELAY\<close>. No run makes more calls than the number of attempts
  allowed.
\<close>

theorem retry_request_backoff:
  "((\<forall>i<k. \<exists>e. snd (request_func i) = Inl e \<and> is_transport_error e)
      \<and> snd (request_func k) = Inr result
      \<and> int k < resolved_max_retries config max_retries \<longrightarrow>
      retry_request config request_func max_retries =
        (Inr result,
         concat (map (\<lambda>i. [Attempt i (fst (request_func i)), Sleep (RETRY_DELAY config * 2 ^ i)])
                   [0..<k])
         @ [Attempt k (fst (request_func k))])
      \<and> sleeps (snd (retry_request config request_func max_retries))
          = map (\<lambda>i. RETRY_DELAY config * 2 ^ i) [0..<k]
      \<and> attempt_indices (snd (retry_request config request_func max_retries)) = [0..<Suc k])
   \<and> ((\<forall>i<2. \<exists>e. snd (request_func i) = Inl e \<and> is_transport_error e)
      \<and> snd (request_func 2) = Inr result
      \<and> resolved_max_retries config max_retries = 3 \<longrightarrow>
      retry_request config request_func max_retries =
        (Inr result,
         [Attempt 0 (fst (request_func 0)), Sleep (RETRY_DELAY config),
          Attempt 1 (fst (request_func 1)), Sleep (2 * RETRY_DELAY config),
          Attempt 2 (fst (request_func 2))]))
   \<and> length (attempt_indices (snd (retry_request config request_func max_retries)))
        \<le> nat (resolved_max_retries config max_retries)"
proof -
  let ?N = "resolved_max_retries config max_retries"
  let ?d = "RETRY_DELAY config"
  have gen: "retry_request config request_func max_retries =
        (Inr result,
         concat (map (\<lambda>i. [Attempt i (fst (request_func i)), Sleep (?d * 2 ^ i)]) [0..<k])
         @ [Attempt k (fst (request_func k))])"
    if fails: "\<forall>i<k. \<exists>e. snd (request_func i) = Inl e \<and> is_transport_error e"
      and ok: "snd (request_func k) = Inr result" and lt: "int k < ?N"
    for k
  proof -
    have "attempts ?d ?N request_func (nat ?N) 0 None =
       (Inr result,
        concat (map (\<lambda>i. [Attempt i (fst (request_func i)), Sleep (?d * 2 ^ i)]) [0..<0 + k])
        @ [Attempt (0 + k) (fst (request_func (0 + k)))])"
      by (rule attempts_success) (use fails ok lt in simp_all)
    then show ?thesis by (simp add: retry_request_def Let_def)
  qed
  have three: "retry_request config request_func max_retries =
        (Inr result,
         [Attempt 0 (fst (request_func 0)), Sleep ?d,
          Attempt 1 (fst (request_func 1)), Sleep (2 * ?d),
          Attempt 2 (fst (request_func 2))])"
    if fails: "\<forall>i<2. \<exists>e. snd (request_func i) = Inl e \<and> is_transport_error e"
      and ok: "snd (request_func 2) = Inr result" and n3: "?N = 3"
  proof -
    have "int 2 < ?N" using n3 by simp
    from gen [OF fails ok this] show ?thesis
      by (simp add: upt_rec [of 0] upt_rec [of 1] upt_rec [of 2] numeral_2_eq_2 mult.commute)
  qed
  have bound: "length (attempt_indices (snd (retry_request config request_func max_retries))) \<le> nat ?N"
    by (simp add: retry_request_def Let_def attempts_bound)
  show ?thesis
  proof (intro conjI impI)
    assume h: "(\<forall>i<k. \<exists>e. snd (request_func i) = Inl e \<and> is_transport_error e)
      \<and> snd (request_func k) = Inr result \<and> int k < ?N"
    then have eq: "retry_request config request_func max_retries =
        (Inr result,
         concat (map (\<lambda>i. [Attempt i (fst (request_func i)), Sleep (?d * 2 ^ i)]) [0..<k])
         @ [Attempt k (fst (request_func k))])"
      by (intro gen) simp_all
    show "retry_request config request_func max_retries =
        (Inr result,
         concat (map (\<lambda>i. [Attempt i (fst (request_func i)), Sleep (?d * 2 ^ i)]) [0..<k])
         @ [Attempt k (fst (request_func k))])"
      by (rule eq)
    show "sleeps (snd (retry_request config request_func max_retries)) = map (\<lambda>i. ?d * 2 ^ i) [0..<k]"
      unfolding eq by (simp add: sleeps_append sleeps_backoff del: upt_Suc)
    show "attempt_indices (snd (retry_request config request_func max_retries)) = [0..<Suc k]"
      unfolding eq by (simp add: attempt_indices_append attempt_indices_backoff)
  next
    assume "(\<forall>i<2. \<exists>e. snd (request_func i) = Inl e \<and> is_transport_error e)
      \<and> snd (request_func 2) = Inr result \<and> ?N = 3"
    then show "retry_request config request_func max_retries =
        (Inr result,
         [Attempt 0 (fst (request_func 0)), Sleep ?d,
          Attempt 1 (fst (request_func 1)), Sleep (2 * ?d),
          Attempt 2 (fst (request_func 2))])"
      by (intro three) simp_all
  next
    show "length (attempt_indices (snd (retry_request config request_func max_retries))) \<le> nat ?N"
      by (rule bound)
  qed
qed

theorem retry_request_backoff_witness:
  "retry_request (example_config\<lparr>RETRY_DELAY := 1 / 2\<rparr>) (flaky 2 ''ok'') None =
     (Inr ''ok'', [Attempt 0 (), Sleep (1 / 2), Attempt 1 (), Sleep 1, Attempt 2 ()])
   \<and> sleeps (snd (retry_request (example_config\<lparr>RETRY_DELAY := 1 / 2\<rparr>) (flaky 2 ''ok'') None))
       = [1 / 2, 1]
   \<and> attempt_indices (snd (retry_request (example_config\<lparr>RETRY_DELAY := 1 / 2\<rparr>) (flaky 2 ''ok'') None))
       = [0, 1, 2]"
proof -
  have fails: "\<forall>i<2. \<exists>e. snd (flaky 2 ''ok'' i) = Inl e \<and> is_transport_error e"
    by (simp add: flaky_def)
  have ok: "snd (flaky 2 ''ok'' 2) = Inr ''ok''"
    by (simp add: flaky_def)
  have n: "resolved_max_retries (example_config\<lparr>RETRY_DELAY := 1 / 2\<rparr>) None = 3"
    by (simp add: resolved_max_retries_def example_config_def)
  have d: "RETRY_DELAY (example_config\<lparr>RETRY_DELAY := 1 / 2\<rparr>) = 1 / 2"
    by simp
  have eq: "retry_request (example_config\<lparr>RETRY_DELAY := 1 / 2\<rparr>) (flaky 2 ''ok'') None =
     (Inr ''ok'', [Attempt 0 (), Sleep (1 / 2), Attempt 1 (), Sleep 1, Attempt 2 ()])"
    using retry_request_backoff
      [of 2 "flaky 2 ''ok''" "''ok''" "example_config\<lparr>RETRY_DELAY := 1 / 2\<rparr>" None,
       THEN conjunct2, THEN conjunct1]
      fails ok n d
    by (simp add: flaky_def)
  show ?thesis
    unfolding eq by simp
qed

text \<open>
  Claim C10. When at least one attempt is allowed and every attempt raises a connection
  error or a timeout, \<^verbatim>\<open>_retry_request\<close> makes exactly that many calls and raises what the
  last call raised. \<^verbatim>\<open>Configuration._validate\<close> does not look at \<^verbatim>\<open>MAX_RETRIES\<close>, so a
  configuration with \<^verbatim>\<open>MAX_RETRIES = 0\<close> passes it; with that value the loop makes no call
  and the final statement is \<^verbatim>\<open>raise None\<close>, which Python turns into a \<^verbatim>\<open>TypeError\<close>.
\<close>

theorem retry_request_exhausted:
  "(1 \<le> resolved_max_retries config max_retries
      \<and> (\<forall>i. int i < resolved_max_retries config max_retries \<longrightarrow>
             (\<exists>e. snd (request_func i) = Inl e \<and> is_transport_error e)) \<longrightarrow>
      fst (retry_request config request_func max_retries)
        = snd (request_func (nat (resolved_max_retries config max_retries) - 1))
      \<and> attempt_indices (snd (retry_request config request_func max_retries))
          = [0..<nat (resolved_max_retries config max_retries)])
   \<and> validate (config\<lparr>MAX_RETRIES := n\<rparr>) = validate config
   \<and> (MAX_RETRIES config = 0 \<longrightarrow>
        retry_request config request_func None
          = (Inl (TypeError ''exceptions must derive from BaseException''), [])
        \<and> retry_request config request_func None
          = (Inl (raise_last None), []))"
proof (intro conjI impI)
  let ?N = "resolved_max_retries config max_retries"
  assume h: "1 \<le> ?N \<and> (\<forall>i. int i < ?N \<longrightarrow> (\<exists>e. snd (request_func i) = Inl e \<and> is_transport_error e))"
  define m where "m = nat ?N - 1"
  have pos: "0 < nat ?N" using h by simp
  then have N1: "nat ?N = Suc m" by (simp add: m_def)
  have "int (nat ?N) = ?N" using h by simp
  then have N2: "int 0 + int m + 1 = ?N" unfolding N1 by simp
  note N = N1 N2
  have fails: "\<forall>i\<le>m. \<exists>e. snd (request_func (0 + i)) = Inl e \<and> is_transport_error e"
  proof (intro allI impI)
    fix i assume "i \<le> m"
    then have "int i < ?N" using N(2) by simp
    with h show "\<exists>e. snd (request_func (0 + i)) = Inl e \<and> is_transport_error e" by simp
  qed
  have eq: "attempts (RETRY_DELAY config) ?N request_func (Suc m) 0 None =
       (snd (request_func (0 + m)),
        concat (map (\<lambda>i. [Attempt i (fst (request_func i)), Sleep (RETRY_DELAY config * 2 ^ i)]) [0..<0 + m])
        @ [Attempt (0 + m) (fst (request_func (0 + m)))])"
    by (rule attempts_all_fail [OF fails N(2)])
  have rr: "retry_request config request_func max_retries =
       (snd (request_func m),
        concat (map (\<lambda>i. [Attempt i (fst (request_func i)), Sleep (RETRY_DELAY config * 2 ^ i)]) [0..<m])
        @ [Attempt m (fst (request_func m))])"
    using eq by (simp add: retry_request_def Let_def N(1))
  show "fst (retry_request config request_func max_retries) = snd (request_func (nat ?N - 1))"
    unfolding rr by (simp add: m_def)
  show "attempt_indices (snd (retry_request config request_func max_retries)) = [0..<nat ?N]"
    unfolding rr N(1) by (simp add: attempt_indices_append attempt_indices_backoff)
next
  show "validate (config\<lparr>MAX_RETRIES := n\<rparr>) = validate config"
    by (rule validate_ignores_retries)
next
  assume z: "MAX_RETRIES config = 0"
  then show "retry_request config request_func None
          = (Inl (TypeError ''exceptions must derive from BaseException''), [])"
    by (simp add: retry_request_def resolved_max_retries_def)
  from z show "retry_request config request_func None = (Inl (raise_last None), [])"
    by (simp add: retry_request_def resolved_max_retries_def)
qed

theorem retry_request_exhausted_witness:
  "validate (example_config\<lparr>MAX_RETRIES := 0\<rparr>) = Inr ()
   \<and> retry_request (example_config\<lparr>MAX_RETRIES := 0\<rparr>) (flaky 5 ''ok'') None
       = (Inl (TypeError ''exceptions must derive from BaseException''), [])
   \<and> fst (retry_request example_config (flaky 5 ''ok'') None) = Inl (ClientError ''connection refused'')
   \<and> attempt_indices (snd (retry_request example_config (flaky 5 ''ok'') None)) = [0, 1, 2]"
proof -
  have v: "validate example_config = Inr ()"
    by (simp add: validate_def example_config_def)
  have z: "MAX_RETRIES (example_config\<lparr>MAX_RETRIES := 0\<rparr>) = 0"
    by simp
  have n: "resolved_max_retries example_config None = 3"
    by (simp add: resolved_max_retries_def example_config_def)
  have fails: "\<forall>i. int i < 3 \<longrightarrow> (\<exists>e. snd (flaky 5 ''ok'' i) = Inl e \<and> is_transport_error e)"
    by (simp add: flaky_def)
  have a: "validate (example_config\<lparr>MAX_RETRIES := 0\<rparr>) = Inr ()"
    using retry_request_exhausted [of example_config None "flaky 5 ''ok''" 0] v by simp
  have b: "retry_request (example_config\<lparr>MAX_RETRIES := 0\<rparr>) (flaky 5 ''ok'') None
       = (Inl (TypeError ''exceptions must derive from BaseException''), [])"
    using retry_request_exhausted [of "example_config\<lparr>MAX_RETRIES := 0\<rparr>" None "flaky 5 ''ok''" 0] z
    by simp
  have c: "fst (retry_request example_config (flaky 5 ''ok'') None) = Inl (ClientError ''connection refused'')
     \<and> attempt_indices (snd (retry_request example_config (flaky 5 ''ok'') None)) = [0, 1, 2]"
    using retry_request_exhausted [of example_config None "flaky 5 ''ok''" 0] n fails
    by (simp add: flaky_def upt_rec [of 0] upt_rec [of 1] upt_rec [of 2] numeral_3_eq_3)
  show ?thesis using a b c by simp
qed
section \<open>Properties of the upstream client\<close>

lemma sent_requests_attempts:
  "set (sent_requests (snd (attempts d N f remaining a le))) \<subseteq> range (\<lambda>i. fst (f i))"
proof (induction remaining arbitrary: a le)
  case 0
  then show ?case by simp
next
  case (Suc remaining)
  obtain sent res where fa: "f a = (sent, res)" by (cases "f a")
  have s: "sent \<in> range (\<lambda>i. fst (f i))" using fa by (metis fst_conv rangeI)
  have sr: "sent_requests (xs @ ys) = sent_requests xs @ sent_requests ys" for xs ys :: "'a event list"
    by (induction xs rule: sent_requests.induct) simp_all
  show ?case
    using Suc.IH [of "Suc a" "Some e" for e] fa s
    by (cases res) (auto simp: split_beta Let_def sr)
qed

lemma proxy_trace:
  "snd (proxy_chat_completion loads config post request_data personality request_id) =
     snd (retry_request config
            (\<lambda>attempt. (outbound_request config request_data personality request_id,
                         post attempt (outbound_request config request_data personality request_id)))
            None)"
  by (simp add: proxy_chat_completion_def Let_def split_beta)

lemma proxy_sent:
  "set (sent_requests (snd (proxy_chat_completion loads config post request_data personality request_id)))
     \<subseteq> {outbound_request config request_data personality request_id}"
  unfolding proxy_trace retry_request_def Let_def
  using sent_requests_attempts
    [of "RETRY_DELAY config" "resolved_max_retries config None"
        "\<lambda>attempt. (outbound_request config request_data personality request_id,
                         post attempt (outbound_request config request_data personality request_id))"]
  by auto

lemma proxy_first_call:
  "1 \<le> MAX_RETRIES config \<Longrightarrow>
   hd (snd (proxy_chat_completion loads config post request_data personality request_id))
     = Attempt 0 (outbound_request config request_data personality request_id)"
proof -
  assume "1 \<le> MAX_RETRIES config"
  then obtain m where m: "nat (MAX_RETRIES config) = Suc m"
    by (cases "nat (MAX_RETRIES config)") auto
  show ?thesis
    unfolding proxy_trace retry_request_def Let_def resolved_max_retries_def
    by (simp add: m split_beta Let_def split: sum.splits)
qed

lemma outbound_model:
  "model (json_body (outbound_request config request_data personality request_id))
     = Some (UPSTREAM_MODEL_NAME config)"
  by (simp add: outbound_request_def Let_def)

lemma outbound_messages:
  "messages (json_body (outbound_request config request_data personality request_id)) =
     Some (let ms = (case messages request_data of None \<Rightarrow> [] | Some ms \<Rightarrow> ms)
           in if list_ex (\<lambda>msg. role msg = ''system'') ms then ms
              else \<lparr>role = ''system'', content = system_prompt personality,
                    name = None, function_call = None\<rparr> # ms)"
  by (simp add: outbound_request_def Let_def)

lemma outbound_params:
  "params (json_body (outbound_request config request_data personality request_id)) = params request_data"
  by (simp add: outbound_request_def Let_def)

text \<open>
  Claim C1. Every request that \<^verbatim>\<open>proxy_chat_completion\<close> posts is the one rewritten request.
  When the caller's message list has no message with role \<^verbatim>\<open>system\<close>, its message list is
  the caller's list with one message in front, of role \<^verbatim>\<open>system\<close> and with the persona's
  \<^verbatim>\<open>system_prompt\<close> as content, and that message is its only system message. When the
  caller's list has a system message, the message list is the caller's list, unchanged
  in content and order, so the persona's instruction is not added to the caller's own.
  The other parameters of the request are carried over as they are.
\<close>

theorem proxy_system_message:
  "(let ms = (case messages request_data of None \<Rightarrow> [] | Some ms \<Rightarrow> ms);
        persona = \<lparr>role = ''system'', content = system_prompt personality,
                   name = None, function_call = None\<rparr>;
        out = outbound_request config request_data personality request_id
    in (\<forall>req\<in>set (sent_requests
                      (snd (proxy_chat_completion loads config post request_data personality request_id))).
          req = out)
       \<and> (\<not> list_ex (\<lambda>msg. role msg = ''system'') ms \<longrightarrow>
            messages (json_body out) = Some (persona # ms)
            \<and> filter (\<lambda>msg. role msg = ''system'') (persona # ms) = [persona])
       \<and> (list_ex (\<lambda>msg. role msg = ''system'') ms \<longrightarrow> messages (json_body out) = Some ms)
       \<and> params (json_body out) = params request_data)"
proof -
  let ?ms = "case messages request_data of None \<Rightarrow> [] | Some ms \<Rightarrow> ms"
  let ?persona = "\<lparr>role = ''system'', content = system_prompt personality,
                   name = None, function_call = None\<rparr>"
  let ?out = "outbound_request config request_data personality request_id"
  have sent: "\<forall>req\<in>set (sent_requests
                      (snd (proxy_chat_completion loads config post request_data personality request_id))).
          req = ?out"
    using proxy_sent [of loads config post request_data personality request_id] by blast
  have absent: "messages (json_body ?out) = Some (?persona # ?ms)
            \<and> filter (\<lambda>msg. role msg = ''system'') (?persona # ?ms) = [?persona]"
    if no: "\<not> list_ex (\<lambda>msg. role msg = ''system'') ?ms"
  proof -
    have "filter (\<lambda>msg. role msg = ''system'') ?ms = []"
      using no unfolding list_ex_iff filter_empty_conv by blast
    then show ?thesis using no by (simp add: outbound_messages Let_def)
  qed
  have present: "messages (json_body ?out) = Some ?ms"
    if "list_ex (\<lambda>msg. role msg = ''system'') ?ms"
    using that by (simp add: outbound_messages Let_def)
  show ?thesis
    unfolding Let_def using sent absent present outbound_params by blast
qed

theorem proxy_system_message_witness:
  "json_body (outbound_request example_config
      \<lparr>model = Some ''socrates'',
       messages = Some [\<lparr>role = ''user'', content = ''What is virtue?'', name = None, function_call = None\<rparr>],
       params = [(''stream'', JBool False)]\<rparr>
      \<lparr>personality_id = ''socrates'', system_prompt = ''You are Socrates.'', created = 0,
       owned_by = ''zaguanai''\<rparr> ''req-1'')
    = \<lparr>model = Some ''promptshield/gemini-flash-lite-latest'',
       messages = Some [\<lparr>role = ''system'', content = ''You are Socrates.'', name = None, function_call = None\<rparr>,
                        \<lparr>role = ''user'', content = ''What is virtue?'', name = None, function_call = None\<rparr>],
       params = [(''stream'', JBool False)]\<rparr>
   \<and> messages (json_body (outbound_request example_config
      \<lparr>model = Some ''socrates'',
       messages = Some [\<lparr>role = ''user'', content = ''Hi'', name = None, function_call = None\<rparr>,
                        \<lparr>role = ''system'', content = ''Be brief.'', name = None, function_call = None\<rparr>],
       params = []\<rparr>
      \<lparr>personality_id = ''socrates'', system_prompt = ''You are Socrates.'', created = 0,
       owned_by = ''zaguanai''\<rparr> ''req-2''))
    = Some [\<lparr>role = ''user'', content = ''Hi'', name = None, function_call = None\<rparr>,
            \<lparr>role = ''system'', content = ''Be brief.'', name = None, function_call = None\<rparr>]"
proof -
  let ?p = "\<lparr>personality_id = ''socrates'', system_prompt = ''You are Socrates.'', created = 0,
       owned_by = ''zaguanai''\<rparr>"
  let ?rd1 = "\<lparr>model = Some ''socrates'',
       messages = Some [\<lparr>role = ''user'', content = ''What is virtue?'', name = None, function_call = None\<rparr>],
       params = [(''stream'', JBool False)]\<rparr>"
  let ?rd2 = "\<lparr>model = Some ''socrates'',
       messages = Some [\<lparr>role = ''user'', content = ''Hi'', name = None, function_call = None\<rparr>,
                        \<lparr>role = ''system'', content = ''Be brief.'', name = None, function_call = None\<rparr>],
       params = []\<rparr>"
  have m: "model (json_body (outbound_request example_config ?rd1 ?p ''req-1''))
      = Some ''promptshield/gemini-flash-lite-latest''"
    by (simp add: outbound_request_def Let_def example_config_def)
  have a: "messages (json_body (outbound_request example_config ?rd1 ?p ''req-1''))
      = Some [\<lparr>role = ''system'', content = ''You are Socrates.'', name = None, function_call = None\<rparr>,
              \<lparr>role = ''user'', content = ''What is virtue?'', name = None, function_call = None\<rparr>]
     \<and> params (json_body (outbound_request example_config ?rd1 ?p ''req-1'')) = [(''stream'', JBool False)]"
    using proxy_system_message [of ?rd1 ?p example_config "''req-1''" sample_loads "\<lambda>i req. Inl (ClientError [])"]
    by (simp add: Let_def)
  have b: "messages (json_body (outbound_request example_config ?rd2 ?p ''req-2''))
      = Some [\<lparr>role = ''user'', content = ''Hi'', name = None, function_call = None\<rparr>,
              \<lparr>role = ''system'', content = ''Be brief.'', name = None, function_call = None\<rparr>]"
    using proxy_system_message [of ?rd2 ?p example_config "''req-2''" sample_loads "\<lambda>i req. Inl (ClientError [])"]
    by (simp add: Let_def)
  have eq: "r = \<lparr>model = model r, messages = messages r, params = params r\<rparr>" for r :: request_data
    by simp
  show ?thesis
    using m a b eq [of "json_body (outbound_request example_config ?rd1 ?p ''req-1'')"] by simp
qed

text \<open>
  Claim C2. Every request that \<^verbatim>\<open>proxy_chat_completion\<close> posts has the configured
  \<^verbatim>\<open>UPSTREAM_MODEL_NAME\<close> as its \<^verbatim>\<open>model\<close>, whatever model the caller's request named; and
  when at least one attempt is allowed, the first thing the function does is to post
  that request.
\<close>

theorem proxy_upstream_model:
  "(\<forall>req\<in>set (sent_requests
                   (snd (proxy_chat_completion loads config post request_data personality request_id))).
       model (json_body req) = Some (UPSTREAM_MODEL_NAME config))
   \<and> model (json_body (outbound_request config request_data personality request_id))
        = Some (UPSTREAM_MODEL_NAME config)
   \<and> (1 \<le> MAX_RETRIES config \<longrightarrow>
        hd (snd (proxy_chat_completion loads config post request_data personality request_id))
          = Attempt 0 (outbound_request config request_data personality request_id))"
  using proxy_sent [of loads config post request_data personality request_id]
  by (auto simp: outbound_model proxy_first_call)

theorem proxy_upstream_model_witness:
  "hd (snd (proxy_chat_completion sample_loads example_config
        (\<lambda>i req. Inr \<lparr>status = 200, text_body = Inr ''{}'', content_lines = [], closed = False\<rparr>)
        \<lparr>model = Some ''socrates'',
         messages = Some [\<lparr>role = ''user'', content = ''Hi'', name = None, function_call = None\<rparr>],
         params = []\<rparr>
        \<lparr>personality_id = ''socrates'', system_prompt = ''You are Socrates.'', created = 0,
         owned_by = ''zaguanai''\<rparr> ''req-1''))
    = Attempt 0
       \<lparr>url = ''https://api.zaguanai.com/v1/chat/completions'',
        json_body =
          \<lparr>model = Some ''promptshield/gemini-flash-lite-latest'',
           messages = Some [\<lparr>role = ''system'', content = ''You are Socrates.'', name = None,
                              function_call = None\<rparr>,
                            \<lparr>role = ''user'', content = ''Hi'', name = None, function_call = None\<rparr>],
           params = []\<rparr>,
        headers = [(''Content-Type'', ''application/json''),
                   (''Authorization'', ''Bearer sk-example''),
                   (''X-Request-ID'', ''req-1'')]\<rparr>"
proof -
  have r: "1 \<le> MAX_RETRIES example_config"
    by (simp add: example_config_def)
  show ?thesis
    using proxy_upstream_model
      [of sample_loads example_config
          "\<lambda>i req. Inr \<lparr>status = 200, text_body = Inr ''{}'', content_lines = [], closed = False\<rparr>"
          "\<lparr>model = Some ''socrates'',
            messages = Some [\<lparr>role = ''user'', content = ''Hi'', name = None, function_call = None\<rparr>],
            params = []\<rparr>"
          "\<lparr>personality_id = ''socrates'', system_prompt = ''You are Socrates.'', created = 0,
            owned_by = ''zaguanai''\<rparr>" "''req-1''"] r
    by (simp add: outbound_request_def Let_def example_config_def rstrip_slash_def)
qed

lemma first_call_responds:
  assumes "post 0 req = Inr response" and "1 \<le> MAX_RETRIES config"
  shows "retry_request config (\<lambda>attempt. (req, post attempt req)) None
           = (Inr response, [Attempt 0 req])"
proof -
  obtain m where m: "nat (MAX_RETRIES config) = Suc m"
    using assms(2) by (cases "nat (MAX_RETRIES config)") auto
  show ?thesis
    using assms(1) by (simp add: retry_request_def resolved_max_retries_def m)
qed

lemma sample_loads_null: "sample_loads ''null'' = Inr JNull"
  by (simp add: sample_loads_def)

lemma sample_loads_deep:
  "sample_loads (replicate 100000 CHR ''['')
     = Inl (RecursionError ''maximum recursion depth exceeded'')"
proof -
  have len: "length (replicate 100000 CHR ''['') = 100000"
    by simp
  have all: "list_all (\<lambda>c. c = CHR ''['') (replicate 100000 CHR ''['')"
    by (simp add: list_all_iff)
  have ne: "replicate 100000 CHR ''['' \<noteq> s" if "length s < 100000" for s
    using that len by auto
  show ?thesis
    unfolding sample_loads_def using all ne by simp
qed

text \<open>
  The claim C5 as the specification states it promises a structured error for every
  response with a status of at least 400: the parsed body, or else the body wrapped as
  \<^verbatim>\<open>upstream_error\<close> with the upstream's status. For a response with status 500 and the
  body \<^verbatim>\<open>null\<close> the function returns \<^verbatim>\<open>(None, None)\<close>, an error component that is no error
  at all. For a response with status 502 and a body on which the parser raises
  \<^verbatim>\<open>RecursionError\<close> it returns an \<^verbatim>\<open>internal_error\<close> with code 500 in place of the wrapped
  body with code 502.
\<close>

theorem proxy_error_response_not_retried_counterexample:
  "fst (proxy_chat_completion sample_loads example_config
          (\<lambda>i req. Inr \<lparr>status = 500, text_body = Inr ''null'',
                         content_lines = [], closed = False\<rparr>)
          \<lparr>model = Some ''socrates'', messages = Some [], params = []\<rparr>
          \<lparr>personality_id = ''socrates'', system_prompt = ''P'', created = 0,
           owned_by = ''zaguanai''\<rparr>
          ''r'')
     = Inr (None, JNull)
   \<and> fst (proxy_chat_completion sample_loads example_config
          (\<lambda>i req. Inr \<lparr>status = 502, text_body = Inr (replicate 100000 CHR ''[''),
                         content_lines = [], closed = False\<rparr>)
          \<lparr>model = Some ''socrates'', messages = Some [], params = []\<rparr>
          \<lparr>personality_id = ''socrates'', system_prompt = ''P'', created = 0,
           owned_by = ''zaguanai''\<rparr>
          ''r'')
     = Inr (None, JObj [(''error'',
                         JObj [(''message'', JStr ''Unexpected error: maximum recursion depth exceeded''),
                               (''type'', JStr ''internal_error''),
                               (''code'', JInt 500)])])"
proof -
  let ?req = "outbound_request example_config
          \<lparr>model = Some ''socrates'', messages = Some [], params = []\<rparr>
          \<lparr>personality_id = ''socrates'', system_prompt = ''P'', created = 0,
           owned_by = ''zaguanai''\<rparr>
          ''r''"
  have r: "1 \<le> MAX_RETRIES example_config"
    by (simp add: example_config_def)
  have once: "retry_request example_config (\<lambda>attempt. (?req, Inr response)) None
      = (Inr response, [Attempt 0 ?req])" for response :: ClientResponse
    using first_call_responds [of "\<lambda>i req. Inr response" ?req response example_config] r
    by simp
  show ?thesis
    by (simp add: proxy_chat_completion_def Let_def once
          sample_loads_null sample_loads_deep error_envelope_def)
qed

text \<open>
  Claim C5, as amended. When a call of the transport returns a response whose status is
  at least 400 (after \<open>k\<close> calls that failed with a connection error or a timeout, \<open>k\<close>
  below the number of attempts allowed), that call is the last one: the calls made are
  \<open>0, ..., k\<close>, so a response at the first call means exactly one call. The function
  returns no response, and as the error the parsed body when the body parses to a JSON
  object, and the body's text wrapped with type \<^verbatim>\<open>upstream_error\<close> and the response's
  status as code when \<^verbatim>\<open>json.loads\<close> rejects the body with \<^verbatim>\<open>JSONDecodeError\<close>.
\<close>

theorem proxy_error_response_not_retried:
  "(let req = outbound_request config request_data personality request_id;
        run = proxy_chat_completion loads config post request_data personality request_id
    in (\<forall>i<k. \<exists>e. post i req = Inl e \<and> is_transport_error e)
       \<and> post k req = Inr response
       \<and> int k < MAX_RETRIES config
       \<and> 400 \<le> status response
       \<and> text_body response = Inr error_text \<longrightarrow>
         attempt_indices (snd run) = [0..<Suc k]
         \<and> last (snd run) = Attempt k req
         \<and> (k = 0 \<longrightarrow> snd run = [Attempt 0 req])
         \<and> (\<forall>kvs. loads error_text = Inr (JObj kvs) \<longrightarrow> fst run = Inr (None, JObj kvs))
         \<and> (\<forall>m. loads error_text = Inl (JSONDecodeError m) \<longrightarrow>
               fst run = Inr (None, JObj [(''error'', JObj [(''message'', JStr error_text),
                                                            (''type'', JStr ''upstream_error''),
                                                            (''code'', JInt (status response))])])))"
proof -
  let ?req = "outbound_request config request_data personality request_id"
  let ?f = "\<lambda>attempt. (?req, post attempt ?req)"
  let ?run = "proxy_chat_completion loads config post request_data personality request_id"
  let ?wrapped = "JObj [(''error'', JObj [(''message'', JStr error_text),
                                        (''type'', JStr ''upstream_error''),
                                        (''code'', JInt (status response))])]"
  have main: "attempt_indices (snd ?run) = [0..<Suc k]
         \<and> last (snd ?run) = Attempt k ?req
         \<and> (k = 0 \<longrightarrow> snd ?run = [Attempt 0 ?req])
         \<and> (\<forall>kvs. loads error_text = Inr (JObj kvs) \<longrightarrow> fst ?run = Inr (None, JObj kvs))
         \<and> (\<forall>m. loads error_text = Inl (JSONDecodeError m) \<longrightarrow> fst ?run = Inr (None, ?wrapped))"
    if fails: "\<forall>i<k. \<exists>e. post i ?req = Inl e \<and> is_transport_error e"
      and resp: "post k ?req = Inr response" and lt: "int k < MAX_RETRIES config"
      and st: "400 \<le> status response" and body: "text_body response = Inr error_text"
  proof -
    have N: "resolved_max_retries config None = MAX_RETRIES config"
      by (simp add: resolved_max_retries_def)
    have "attempts (RETRY_DELAY config) (MAX_RETRIES config) ?f (nat (MAX_RETRIES config)) 0 None =
       (Inr response,
        concat (map (\<lambda>i. [Attempt i (fst (?f i)), Sleep (RETRY_DELAY config * 2 ^ i)]) [0..<0 + k])
        @ [Attempt (0 + k) (fst (?f (0 + k)))])"
      by (rule attempts_success) (use fails resp lt in simp_all)
    then have rr: "retry_request config ?f None =
       (Inr response,
        concat (map (\<lambda>i. [Attempt i ?req, Sleep (RETRY_DELAY config * 2 ^ i)]) [0..<k])
        @ [Attempt k ?req])"
      by (simp add: retry_request_def Let_def N)
    have parsed: "fst ?run = Inr (None, JObj kvs)" if "loads error_text = Inr (JObj kvs)" for kvs
      using st body that by (simp add: proxy_chat_completion_def Let_def rr)
    have rejected: "fst ?run = Inr (None, ?wrapped)" if "loads error_text = Inl (JSONDecodeError m)" for m
      using st body that by (simp add: proxy_chat_completion_def Let_def rr error_envelope_def)
    have tr: "snd ?run = concat (map (\<lambda>i. [Attempt i ?req, Sleep (RETRY_DELAY config * 2 ^ i)]) [0..<k])
        @ [Attempt k ?req]"
      by (simp add: proxy_chat_completion_def Let_def rr)
    have "attempt_indices (snd ?run) = [0..<Suc k]"
      unfolding tr by (simp add: attempt_indices_append attempt_indices_backoff)
    moreover have "last (snd ?run) = Attempt k ?req"
      unfolding tr by simp
    moreover have "k = 0 \<longrightarrow> snd ?run = [Attempt 0 ?req]"
      unfolding tr by simp
    ultimately show ?thesis
      using parsed rejected by blast
  qed
  show ?thesis
    unfolding Let_def using main by blast
qed

theorem proxy_error_response_not_retried_witness:
  "proxy_chat_completion sample_loads example_config
      (\<lambda>i req. Inr \<lparr>status = 400,
                     text_body = Inr ''{\"error\": {\"message\": \"bad\", \"type\": \"invalid_request_error\", \"code\": 400}}'',
                     content_lines = [], closed = False\<rparr>)
      \<lparr>model = Some ''socrates'', messages = Some [], params = []\<rparr>
      \<lparr>personality_id = ''socrates'', system_prompt = ''P'', created = 0, owned_by = ''zaguanai''\<rparr>
      ''r''
    = (Inr (None, JObj [(''error'', JObj [(''message'', JStr ''bad''),
                                          (''type'', JStr ''invalid_request_error''),
                                          (''code'', JInt 400)])]),
       [Attempt 0 (outbound_request example_config
          \<lparr>model = Some ''socrates'', messages = Some [], params = []\<rparr>
          \<lparr>personality_id = ''socrates'', system_prompt = ''P'', created = 0, owned_by = ''zaguanai''\<rparr>
          ''r'')])
   \<and> proxy_chat_completion sample_loads example_config
      (\<lambda>i req. Inr \<lparr>status = 503, text_body = Inr ''Service Unavailable'',
                     content_lines = [], closed = False\<rparr>)
      \<lparr>model = Some ''socrates'', messages = Some [], params = []\<rparr>
      \<lparr>personality_id = ''socrates'', system_prompt = ''P'', created = 0, owned_by = ''zaguanai''\<rparr>
      ''r''
    = (Inr (None, JObj [(''error'', JObj [(''message'', JStr ''Service Unavailable''),
                                          (''type'', JStr ''upstream_error''),
                                          (''code'', JInt 503)])]),
       [Attempt 0 (outbound_request example_config
          \<lparr>model = Some ''socrates'', messages = Some [], params = []\<rparr>
          \<lparr>personality_id = ''socrates'', system_prompt = ''P'', created = 0, owned_by = ''zaguanai''\<rparr>
          ''r'')])"
proof -
  let ?rd = "\<lparr>model = Some ''socrates'', messages = Some [], params = []\<rparr>"
  let ?p = "\<lparr>personality_id = ''socrates'', system_prompt = ''P'', created = 0, owned_by = ''zaguanai''\<rparr>"
  let ?body = "''{\"error\": {\"message\": \"bad\", \"type\": \"invalid_request_error\", \"code\": 400}}''"
  let ?r400 = "\<lparr>status = 400, text_body = Inr ?body, content_lines = [], closed = False\<rparr>"
  let ?r503 = "\<lparr>status = 503, text_body = Inr ''Service Unavailable'',
                     content_lines = [], closed = False\<rparr>"
  have r: "int 0 < MAX_RETRIES example_config"
    by (simp add: example_config_def)
  have l400: "sample_loads ?body
      = Inr (JObj [(''error'', JObj [(''message'', JStr ''bad''),
                                     (''type'', JStr ''invalid_request_error''),
                                     (''code'', JInt 400)])])"
    by (simp add: sample_loads_def)
  have l503: "sample_loads ''Service Unavailable'' = Inl (JSONDecodeError ''Expecting value'')"
    by (simp add: sample_loads_def)
  have a: "fst (proxy_chat_completion sample_loads example_config (\<lambda>i req. Inr ?r400) ?rd ?p ''r'')
      = Inr (None, JObj [(''error'', JObj [(''message'', JStr ''bad''),
                                          (''type'', JStr ''invalid_request_error''),
                                          (''code'', JInt 400)])])
    \<and> snd (proxy_chat_completion sample_loads example_config (\<lambda>i req. Inr ?r400) ?rd ?p ''r'')
      = [Attempt 0 (outbound_request example_config ?rd ?p ''r'')]"
    using proxy_error_response_not_retried
      [where config = example_config and request_data = ?rd and personality = ?p
         and request_id = "''r''" and loads = sample_loads and post = "\<lambda>i req. Inr ?r400"
         and k = 0 and response = ?r400 and error_text = ?body] r l400
    by (simp add: Let_def)
  have b: "fst (proxy_chat_completion sample_loads example_config (\<lambda>i req. Inr ?r503) ?rd ?p ''r'')
      = Inr (None, JObj [(''error'', JObj [(''message'', JStr ''Service Unavailable''),
                                          (''type'', JStr ''upstream_error''),
                                          (''code'', JInt 503)])])
    \<and> snd (proxy_chat_completion sample_loads example_config (\<lambda>i req. Inr ?r503) ?rd ?p ''r'')
      = [Attempt 0 (outbound_request example_config ?rd ?p ''r'')]"
    using proxy_error_response_not_retried
      [where config = example_config and request_data = ?rd and personality = ?p
         and request_id = "''r''" and loads = sample_loads and post = "\<lambda>i req. Inr ?r503"
         and k = 0 and response = ?r503 and error_text = "''Service Unavailable''"] r l503
    by (simp add: Let_def)
  show ?thesis
    using a b by (simp add: prod_eq_iff)
qed
section \<open>Properties of the stream processor\<close>

lemma relay_passes:
  "list_all (passes loads mid) pre \<Longrightarrow>
   relay loads mid (pre @ rest) =
     (concat (map (frames_of loads mid) pre) @ fst (relay loads mid rest), snd (relay loads mid rest))"
proof (induction pre)
  case Nil
  then show ?case by simp
next
  case (Cons item pre)
  then obtain line where item: "item = Line line"
    by (cases item) simp_all
  from Cons.prems obtain fs where pl: "process_line loads mid line = Continue fs"
    unfolding item by (cases "process_line loads mid line") simp_all
  have "list_all (passes loads mid) pre" using Cons.prems by simp
  from Cons.IH [OF this] show ?case
    by (simp add: item pl)
qed

lemma process_stream_relay:
  "process_stream loads response mid rid =
     (fst (relay loads mid (content_lines response)), snd (relay loads mid (content_lines response)),
      response\<lparr>closed := True\<rparr>)"
  by (simp add: process_stream_def split_beta)

lemma prefix_nonempty: "prefix ''data: '' s \<Longrightarrow> s \<noteq> []"
  by auto

lemma py_strip_Nil: "py_strip [] = []"
  by (simp add: py_strip_def)

lemma process_line_data:
  assumes "prefix ''data: '' (py_strip line)"
  shows "process_line loads mid line =
     (let data_content = py_strip (drop 6 (py_strip line)) in
        if data_content = ''[DONE]'' then Break [Raw ''data: [DONE]\<newline>\<newline>'']
        else (case loads data_content of
                Inr chunk_data \<Rightarrow>
                  (case rewrite_model mid chunk_data of
                     Inr chunk_data' \<Rightarrow> Continue [Data False chunk_data']
                   | Inl e \<Rightarrow> Raise e)
              | Inl e \<Rightarrow>
                  if is_json_decode_error e
                  then Continue [Raw (py_strip line @ ''\<newline>\<newline>'')]
                  else Raise e))"
proof -
  have ne: "py_strip line \<noteq> []" using assms by (rule prefix_nonempty)
  then have "line \<noteq> []" using py_strip_Nil by auto
  then show ?thesis using ne assms by (simp add: process_line_def Let_def)
qed

lemma map_of_update_same: "map_of (AList.update k v kvs) k = Some v"
  by (simp add: update_conv')

lemma py_strip_line:
  assumes "body \<noteq> []" "\<not> py_isspace (hd body)" "\<not> py_isspace (last body)"
  shows "py_strip (body @ ''\<newline>'') = body"
proof -
  have nl: "py_isspace CHR 0x0A" by (simp add: py_isspace_def)
  have front: "dropWhile py_isspace (body @ ''\<newline>'') = body @ ''\<newline>''"
    using assms(1,2) by (cases body) simp_all
  have "rev body \<noteq> []" "\<not> py_isspace (hd (rev body))"
    using assms(1,3) by (simp_all add: hd_rev)
  then have tail: "dropWhile py_isspace (rev body) = rev body"
    by (cases "rev body") simp_all
  show ?thesis
    unfolding py_strip_def front using nl tail by simp
qed



lemma on_stream_exception_other:
  "e \<noteq> CancelledError \<Longrightarrow> on_stream_exception e = ([Data True (stream_error_chunk e)], None)"
  by (cases e) simp_all


lemma process_stream_text_relay:
  "process_stream_text loads dumps response mid rid =
     map (render dumps) (fst (relay loads mid (content_lines response)))"
  by (simp add: process_stream_text_def process_stream_relay)

text \<open>
  Claim C3. Take a line that the loop reaches (every item before it is a line after
  which the loop goes on) and whose stripped text begins with \<^verbatim>\<open>data: \<close>. When its payload
  is not the sentinel and parses as a dictionary with the key \<^verbatim>\<open>model\<close>, the generator
  yields for it one data frame whose payload is that dictionary with the value of
  \<^verbatim>\<open>model\<close> replaced by the requested model id, every other key and the order of the keys
  kept. When its payload is \<^verbatim>\<open>[DONE]\<close>, the generator yields the frame
  \<^verbatim>\<open>data: [DONE]\<close> followed by a blank line and ends: nothing that follows in the upstream
  stream produces a frame.
\<close>

theorem process_stream_rewrites_model:
  "(let line_str = py_strip line;
        data_content = py_strip (drop 6 line_str);
        before = concat (map (frames_of loads requested_model_id) pre);
        after = fst (relay loads requested_model_id rest);
        rewritten = JObj (AList.update ''model'' (JStr requested_model_id) kvs);
        run = process_stream loads response requested_model_id request_id;
        texts = process_stream_text loads dumps response requested_model_id request_id
    in content_lines response = pre @ Line line # rest
       \<and> list_all (passes loads requested_model_id) pre
       \<and> prefix ''data: '' line_str \<longrightarrow>
         (data_content \<noteq> ''[DONE]'' \<and> loads data_content = Inr (JObj kvs)
            \<and> ''model'' \<in> fst ` set kvs \<longrightarrow>
            fst run = before @ [Data False rewritten] @ after
            \<and> texts = map (render dumps) before
                       @ [''data: '' @ dumps False rewritten @ ''\<newline>\<newline>'']
                       @ map (render dumps) after
            \<and> map_of (AList.update ''model'' (JStr requested_model_id) kvs) ''model''
                 = Some (JStr requested_model_id)
            \<and> map fst (AList.update ''model'' (JStr requested_model_id) kvs) = map fst kvs
            \<and> (\<forall>k. k \<noteq> ''model'' \<longrightarrow>
                  map_of (AList.update ''model'' (JStr requested_model_id) kvs) k = map_of kvs k))
         \<and> (data_content = ''[DONE]'' \<longrightarrow>
            run = (before @ [Raw ''data: [DONE]\<newline>\<newline>''], None, response\<lparr>closed := True\<rparr>)
            \<and> texts = map (render dumps) before @ [''data: [DONE]\<newline>\<newline>'']))"
proof -
  let ?before = "concat (map (frames_of loads requested_model_id) pre)"
  let ?after = "fst (relay loads requested_model_id rest)"
  let ?data = "py_strip (drop 6 (py_strip line))"
  let ?rewritten = "JObj (AList.update ''model'' (JStr requested_model_id) kvs)"
  let ?run = "process_stream loads response requested_model_id request_id"
  let ?texts = "process_stream_text loads dumps response requested_model_id request_id"
  have rewrite: "fst ?run = ?before @ [Data False ?rewritten] @ ?after
            \<and> ?texts = map (render dumps) ?before
                       @ [''data: '' @ dumps False ?rewritten @ ''\<newline>\<newline>'']
                       @ map (render dumps) ?after"
    if c: "content_lines response = pre @ Line line # rest"
      and p: "list_all (passes loads requested_model_id) pre"
      and d: "prefix ''data: '' (py_strip line)"
      and nd: "?data \<noteq> ''[DONE]''" and l: "loads ?data = Inr (JObj kvs)"
      and m: "''model'' \<in> fst ` set kvs"
  proof -
    have pl: "process_line loads requested_model_id line = Continue [Data False ?rewritten]"
      using nd l m by (simp add: process_line_data [OF d] Let_def)
    have "relay loads requested_model_id (pre @ Line line # rest) =
        (?before @ fst (relay loads requested_model_id (Line line # rest)),
         snd (relay loads requested_model_id (Line line # rest)))"
      by (rule relay_passes [OF p])
    then have r: "fst (relay loads requested_model_id (content_lines response))
        = ?before @ [Data False ?rewritten] @ ?after"
      by (simp add: c pl split_beta)
    show ?thesis
      using r by (simp add: process_stream_relay process_stream_text_relay)
  qed
  have sentinel: "?run = (?before @ [Raw ''data: [DONE]\<newline>\<newline>''], None, response\<lparr>closed := True\<rparr>)
            \<and> ?texts = map (render dumps) ?before @ [''data: [DONE]\<newline>\<newline>'']"
    if c: "content_lines response = pre @ Line line # rest"
      and p: "list_all (passes loads requested_model_id) pre"
      and d: "prefix ''data: '' (py_strip line)"
      and dn: "?data = ''[DONE]''"
  proof -
    have pl: "process_line loads requested_model_id line = Break [Raw ''data: [DONE]\<newline>\<newline>'']"
      using dn by (simp add: process_line_data [OF d] Let_def)
    have "relay loads requested_model_id (pre @ Line line # rest) =
        (?before @ fst (relay loads requested_model_id (Line line # rest)),
         snd (relay loads requested_model_id (Line line # rest)))"
      by (rule relay_passes [OF p])
    then have r: "relay loads requested_model_id (content_lines response)
        = (?before @ [Raw ''data: [DONE]\<newline>\<newline>''], None)"
      by (simp add: c pl)
    show ?thesis
      using r by (simp add: process_stream_relay process_stream_text_relay)
  qed
  have keys: "map fst (AList.update ''model'' (JStr requested_model_id) kvs) = map fst kvs"
    if "''model'' \<in> fst ` set kvs"
    using that by (simp add: update_keys)
  have others: "\<forall>k. k \<noteq> ''model'' \<longrightarrow>
                  map_of (AList.update ''model'' (JStr requested_model_id) kvs) k = map_of kvs k"
    by (simp add: update_conv')
  show ?thesis
    unfolding Let_def
  proof (intro impI conjI; (elim conjE)?)
    assume c: "content_lines response = pre @ Line line # rest"
      and p: "list_all (passes loads requested_model_id) pre"
      and d: "prefix ''data: '' (py_strip line)"
    {
      assume nd: "?data \<noteq> ''[DONE]''" and l: "loads ?data = Inr (JObj kvs)"
        and m: "''model'' \<in> fst ` set kvs"
      show "fst ?run = ?before @ [Data False ?rewritten] @ ?after"
        using rewrite [OF c p d nd l m] by (rule conjunct1)
      show "?texts = map (render dumps) ?before
                       @ [''data: '' @ dumps False ?rewritten @ ''\<newline>\<newline>'']
                       @ map (render dumps) ?after"
        using rewrite [OF c p d nd l m] by (rule conjunct2)
      show "map_of (AList.update ''model'' (JStr requested_model_id) kvs) ''model''
                 = Some (JStr requested_model_id)"
        by (rule map_of_update_same)
      show "map fst (AList.update ''model'' (JStr requested_model_id) kvs) = map fst kvs"
        by (rule keys [OF m])
      show "\<forall>k. k \<noteq> ''model'' \<longrightarrow>
                  map_of (AList.update ''model'' (JStr requested_model_id) kvs) k = map_of kvs k"
        by (rule others)
    }
    {
      assume dn: "?data = ''[DONE]''"
      show "?run = (?before @ [Raw ''data: [DONE]\<newline>\<newline>''], None, response\<lparr>closed := True\<rparr>)"
        using sentinel [OF c p d dn] by (rule conjunct1)
      show "?texts = map (render dumps) ?before @ [''data: [DONE]\<newline>\<newline>'']"
        using sentinel [OF c p d dn] by (rule conjunct2)
    }
  qed
qed

lemma strip_data_line:
  "py_strip ''data: {\"id\": \"c1\", \"model\": \"upstream-x\"}\<newline>''
     = ''data: {\"id\": \"c1\", \"model\": \"upstream-x\"}''"
  by (simp add: py_strip_def py_isspace_def)

lemma strip_payload:
  "py_strip ''{\"id\": \"c1\", \"model\": \"upstream-x\"}'' = ''{\"id\": \"c1\", \"model\": \"upstream-x\"}''"
  by (simp add: py_strip_def py_isspace_def)

lemma strip_done_line: "py_strip ''data: [DONE]\<newline>'' = ''data: [DONE]''"
  by (simp add: py_strip_def py_isspace_def)

lemma strip_done: "py_strip ''[DONE]'' = ''[DONE]''"
  by (simp add: py_strip_def py_isspace_def)

lemma strip_newline: "py_strip ''\<newline>'' = []"
  by (simp add: py_strip_def py_isspace_def)

lemma sample_line:
  "process_line sample_loads ''socrates'' ''data: {\"id\": \"c1\", \"model\": \"upstream-x\"}\<newline>''
     = Continue [Data False (JObj [(''id'', JStr ''c1''), (''model'', JStr ''socrates'')])]"
  by (simp add: process_line_def Let_def strip_data_line strip_payload sample_loads_def)

lemma blank_line: "process_line loads mid ''\<newline>'' = Continue [Raw ''\<newline>'']"
  by (simp add: process_line_def Let_def strip_newline)

theorem process_stream_rewrites_model_witness:
  "process_stream sample_loads
      \<lparr>status = 200, text_body = Inr [],
       content_lines = [Line ''data: {\"id\": \"c1\", \"model\": \"upstream-x\"}\<newline>'',
                        Line ''\<newline>'',
                        Line ''data: [DONE]\<newline>'',
                        Line ''data: {\"id\": \"c1\", \"model\": \"upstream-x\"}\<newline>''],
       closed = False\<rparr> ''socrates'' ''req-1''
    = ([Data False (JObj [(''id'', JStr ''c1''), (''model'', JStr ''socrates'')]),
        Raw ''\<newline>'',
        Raw ''data: [DONE]\<newline>\<newline>''],
       None,
       \<lparr>status = 200, text_body = Inr [],
        content_lines = [Line ''data: {\"id\": \"c1\", \"model\": \"upstream-x\"}\<newline>'',
                         Line ''\<newline>'',
                         Line ''data: [DONE]\<newline>'',
                         Line ''data: {\"id\": \"c1\", \"model\": \"upstream-x\"}\<newline>''],
        closed = True\<rparr>)
   \<and> fst (process_stream sample_loads
      \<lparr>status = 200, text_body = Inr [],
       content_lines = [Line ''data: {\"id\": \"c1\", \"model\": \"upstream-x\"}\<newline>''],
       closed = False\<rparr> ''socrates'' ''req-1'')
    = [Data False (JObj [(''id'', JStr ''c1''), (''model'', JStr ''socrates'')])]"
proof -
  let ?l1 = "''data: {\"id\": \"c1\", \"model\": \"upstream-x\"}\<newline>''"
  let ?resp = "\<lparr>status = 200, text_body = Inr [],
       content_lines = [Line ?l1, Line ''\<newline>'', Line ''data: [DONE]\<newline>'', Line ?l1],
       closed = False\<rparr>"
  let ?resp1 = "\<lparr>status = 200, text_body = Inr [], content_lines = [Line ?l1], closed = False\<rparr>"
  have a: "process_stream sample_loads ?resp ''socrates'' ''req-1''
      = ([Data False (JObj [(''id'', JStr ''c1''), (''model'', JStr ''socrates'')]),
          Raw ''\<newline>'', Raw ''data: [DONE]\<newline>\<newline>''], None, ?resp\<lparr>closed := True\<rparr>)"
    using process_stream_rewrites_model
      [of "''data: [DONE]\<newline>''" sample_loads "''socrates''" "[Line ?l1, Line ''\<newline>'']"
          "[Line ?l1]" "[]" ?resp "''req-1''" "\<lambda>a j. []"]
    by (simp add: Let_def strip_done_line strip_done sample_line blank_line)
  have b: "fst (process_stream sample_loads ?resp1 ''socrates'' ''req-1'')
      = [Data False (JObj [(''id'', JStr ''c1''), (''model'', JStr ''socrates'')])]"
    using process_stream_rewrites_model
      [of ?l1 sample_loads "''socrates''" "[]" "[]"
          "[(''id'', JStr ''c1''), (''model'', JStr ''upstream-x'')]" ?resp1 "''req-1''" "\<lambda>a j. []"]
    by (simp add: Let_def strip_data_line strip_payload sample_loads_def)
  show ?thesis
    using a b by simp
qed

lemma py_strip_id:
  assumes "s \<noteq> []" "\<not> py_isspace (hd s)" "\<not> py_isspace (last s)"
  shows "py_strip s = s"
proof -
  have front: "dropWhile py_isspace s = s"
    using assms(1,2) by (cases s) simp_all
  have "rev s \<noteq> []" "\<not> py_isspace (hd (rev s))"
    using assms(1,3) by (simp_all add: hd_rev)
  then have "dropWhile py_isspace (rev s) = rev s"
    by (cases "rev s") simp_all
  then show ?thesis
    unfolding py_strip_def front by simp
qed

lemma strip_bad_line: "py_strip ''data: {\"id\": \<newline>'' = ''data: {\"id\":''"
  by (simp add: py_strip_def py_isspace_def)

lemma strip_bad_payload: "py_strip ''{\"id\":'' = ''{\"id\":''"
  by (simp add: py_strip_def py_isspace_def)

lemma sample_loads_bad: "sample_loads ''{\"id\":'' = Inl (JSONDecodeError ''Expecting value'')"
  by (simp add: sample_loads_def)

lemma bad_line:
  "process_line sample_loads ''socrates'' ''data: {\"id\": \<newline>''
     = Continue [Raw ''data: {\"id\":\<newline>\<newline>'']"
  by (simp add: process_line_def Let_def strip_bad_line strip_bad_payload sample_loads_bad)

lemma done_line:
  "process_line loads mid ''data: [DONE]\<newline>'' = Break [Raw ''data: [DONE]\<newline>\<newline>'']"
  by (simp add: process_line_def Let_def strip_done_line strip_done)

lemma deep_line:
  "process_line sample_loads mid (''data: '' @ replicate 100000 CHR ''['' @ ''\<newline>'')
     = Raise (RecursionError ''maximum recursion depth exceeded'')"
proof -
  let ?deep = "replicate 100000 CHR ''[''"
  have pos: "?deep \<noteq> []"
    by (metis length_replicate list.size(3) zero_neq_numeral)
  have br: "\<not> py_isspace CHR ''[''" "\<not> py_isspace CHR ''d''"
    by (simp_all add: py_isspace_def)
  have lastd: "last ?deep = CHR ''[''"
    using pos by (metis last_in_set in_set_replicate)
  have hdd: "hd ?deep = CHR ''[''"
    using pos by (metis hd_in_set in_set_replicate)
  have s1: "py_strip ((''data: '' @ ?deep) @ ''\<newline>'') = ''data: '' @ ?deep"
    by (rule py_strip_line) (use pos br lastd in simp_all)
  have s2: "py_strip ?deep = ?deep"
    by (rule py_strip_id) (use pos br lastd hdd in simp_all)
  have ne: "?deep \<noteq> ''[DONE]''"
  proof
    assume "?deep = ''[DONE]''"
    then have "length ?deep = length ''[DONE]''" by (rule arg_cong)
    then show False by simp
  qed
  have pre: "prefix ''data: '' (''data: '' @ ?deep)"
    by simp
  have nn: "''data: '' @ ?deep @ ''\<newline>'' \<noteq> []" "''data: '' @ ?deep \<noteq> []"
    by simp_all
  have dr: "drop 6 (''data: '' @ ?deep) = ?deep"
    by simp
  show ?thesis
    using s1 s2 ne pre nn dr
    by (simp add: process_line_def Let_def sample_loads_deep)
qed

lemma stream_raise_first:
  assumes "process_line loads mid line = Raise e" and "e \<noteq> CancelledError"
    and "content_lines response = Line line # rest"
  shows "fst (process_stream loads response mid rid) = [Data True (stream_error_chunk e)]"
  using assms by (simp add: process_stream_relay on_stream_exception_other)

text \<open>
  The claim C8 as the specification states it has the original line forwarded
  unchanged whenever the payload fails to parse. A line that ends in a space before
  its newline is forwarded without the space: the line's content is not a prefix of
  the frame. A line whose payload makes the parser raise \<^verbatim>\<open>RecursionError\<close> is not
  forwarded at all: the stream ends with an error frame, and the sentinel line that
  follows is not relayed.
\<close>

theorem process_stream_forwards_unparsed_counterexample:
  "fst (process_stream sample_loads
          \<lparr>status = 200, text_body = Inr [],
           content_lines = [Line ''data: {\"id\": \<newline>'', Line ''data: [DONE]\<newline>''],
           closed = False\<rparr> ''socrates'' ''req-1'')
     = [Raw ''data: {\"id\":\<newline>\<newline>'', Raw ''data: [DONE]\<newline>\<newline>'']
   \<and> \<not> prefix ''data: {\"id\": '' ''data: {\"id\":\<newline>\<newline>''
   \<and> fst (process_stream sample_loads
          \<lparr>status = 200, text_body = Inr [],
           content_lines = [Line (''data: '' @ replicate 100000 CHR ''['' @ ''\<newline>''),
                            Line ''data: [DONE]\<newline>''],
           closed = False\<rparr> ''socrates'' ''req-1'')
     = [Data True (JObj [(''error'',
                          JObj [(''message'',
                                 JStr ''Stream processing error: maximum recursion depth exceeded''),
                                (''type'', JStr ''stream_error'')])])]"
proof -
  let ?deep_line = "''data: '' @ replicate 100000 CHR ''['' @ ''\<newline>''"
  let ?resp = "\<lparr>status = 200, text_body = Inr [],
           content_lines = [Line ?deep_line, Line ''data: [DONE]\<newline>''],
           closed = False\<rparr>"
  have a: "fst (process_stream sample_loads
          \<lparr>status = 200, text_body = Inr [],
           content_lines = [Line ''data: {\"id\": \<newline>'', Line ''data: [DONE]\<newline>''],
           closed = False\<rparr> ''socrates'' ''req-1'')
     = [Raw ''data: {\"id\":\<newline>\<newline>'', Raw ''data: [DONE]\<newline>\<newline>'']"
    by (simp add: process_stream_def bad_line done_line)
  have b: "\<not> prefix ''data: {\"id\": '' ''data: {\"id\":\<newline>\<newline>''"
    by simp
  have "fst (process_stream sample_loads ?resp ''socrates'' ''req-1'')
     = [Data True (stream_error_chunk (RecursionError ''maximum recursion depth exceeded''))]"
    by (rule stream_raise_first [OF deep_line]) simp_all
  then have c: "fst (process_stream sample_loads ?resp ''socrates'' ''req-1'')
     = [Data True (JObj [(''error'',
                          JObj [(''message'',
                                 JStr ''Stream processing error: maximum recursion depth exceeded''),
                                (''type'', JStr ''stream_error'')])])]"
    by (simp only: stream_error_chunk_def str_exn.simps append.simps)
  show ?thesis
    by (intro conjI a b c)
qed

text \<open>
  Claim C8, as amended. For a line that the loop reaches, whose stripped text begins
  with \<^verbatim>\<open>data: \<close> and whose payload is not the sentinel and is rejected by \<^verbatim>\<open>json.loads\<close> with
  \<^verbatim>\<open>JSONDecodeError\<close>, the generator yields one frame, the text of the line stripped of
  surrounding white space and followed by a blank line, and goes on with the rest of
  the stream: the line is forwarded, not dropped and not rewritten. For a line that is
  its content and a newline, with no white space at either end of the content, the
  frame holds the content unchanged.
\<close>

theorem process_stream_forwards_unparsed:
  "(let line_str = py_strip line;
        data_content = py_strip (drop 6 line_str);
        before = concat (map (frames_of loads requested_model_id) pre);
        run = process_stream loads response requested_model_id request_id;
        texts = process_stream_text loads dumps response requested_model_id request_id
    in content_lines response = pre @ Line line # rest
       \<and> list_all (passes loads requested_model_id) pre
       \<and> prefix ''data: '' line_str
       \<and> data_content \<noteq> ''[DONE]''
       \<and> loads data_content = Inl (JSONDecodeError m) \<longrightarrow>
         fst run = before @ [Raw (line_str @ ''\<newline>\<newline>'')]
                   @ fst (relay loads requested_model_id rest)
         \<and> fst (snd run) = snd (relay loads requested_model_id rest)
         \<and> texts = map (render dumps) before @ [line_str @ ''\<newline>\<newline>'']
                    @ map (render dumps) (fst (relay loads requested_model_id rest))
         \<and> (\<forall>body. line = body @ ''\<newline>'' \<and> body \<noteq> []
                \<and> \<not> py_isspace (hd body) \<and> \<not> py_isspace (last body) \<longrightarrow>
                fst run = before @ [Raw (body @ ''\<newline>\<newline>'')]
                          @ fst (relay loads requested_model_id rest)))"
proof -
  let ?before = "concat (map (frames_of loads requested_model_id) pre)"
  let ?data = "py_strip (drop 6 (py_strip line))"
  let ?run = "process_stream loads response requested_model_id request_id"
  let ?texts = "process_stream_text loads dumps response requested_model_id request_id"
  show ?thesis
    unfolding Let_def
  proof (intro impI conjI; (elim conjE)?)
    assume c: "content_lines response = pre @ Line line # rest"
      and p: "list_all (passes loads requested_model_id) pre"
      and d: "prefix ''data: '' (py_strip line)"
      and nd: "?data \<noteq> ''[DONE]''" and l: "loads ?data = Inl (JSONDecodeError m)"
    have pl: "process_line loads requested_model_id line
        = Continue [Raw (py_strip line @ ''\<newline>\<newline>'')]"
      using nd l by (simp add: process_line_data [OF d] Let_def)
    have "relay loads requested_model_id (pre @ Line line # rest) =
        (?before @ fst (relay loads requested_model_id (Line line # rest)),
         snd (relay loads requested_model_id (Line line # rest)))"
      by (rule relay_passes [OF p])
    then have r: "relay loads requested_model_id (content_lines response)
        = (?before @ [Raw (py_strip line @ ''\<newline>\<newline>'')] @ fst (relay loads requested_model_id rest),
           snd (relay loads requested_model_id rest))"
      by (simp add: c pl split_beta)
    show frames: "fst ?run = ?before @ [Raw (py_strip line @ ''\<newline>\<newline>'')]
                   @ fst (relay loads requested_model_id rest)"
      using r by (simp add: process_stream_relay)
    show "fst (snd ?run) = snd (relay loads requested_model_id rest)"
      using r by (simp add: process_stream_relay)
    show "?texts = map (render dumps) ?before @ [py_strip line @ ''\<newline>\<newline>'']
                    @ map (render dumps) (fst (relay loads requested_model_id rest))"
      using r by (simp add: process_stream_text_relay)
    show "\<forall>body. line = body @ ''\<newline>'' \<and> body \<noteq> []
                \<and> \<not> py_isspace (hd body) \<and> \<not> py_isspace (last body) \<longrightarrow>
                fst ?run = ?before @ [Raw (body @ ''\<newline>\<newline>'')]
                          @ fst (relay loads requested_model_id rest)"
    proof (intro allI impI)
      fix body
      assume b: "line = body @ ''\<newline>'' \<and> body \<noteq> []
                \<and> \<not> py_isspace (hd body) \<and> \<not> py_isspace (last body)"
      then have "py_strip line = body"
        using py_strip_line [of body] by simp
      then show "fst ?run = ?before @ [Raw (body @ ''\<newline>\<newline>'')]
                          @ fst (relay loads requested_model_id rest)"
        using frames by simp
    qed
  qed
qed

lemma strip_clean_line: "py_strip ''data: {\"id\":\<newline>'' = ''data: {\"id\":''"
  by (simp add: py_strip_def py_isspace_def)

theorem process_stream_forwards_unparsed_witness:
  "process_stream_text sample_loads (\<lambda>ensure_ascii payload. ''{}'')
      \<lparr>status = 200, text_body = Inr [],
       content_lines = [Line ''\<newline>'', Line ''data: {\"id\":\<newline>'', Line ''data: [DONE]\<newline>''],
       closed = False\<rparr> ''socrates'' ''req-1''
    = [''\<newline>'', ''data: {\"id\":\<newline>\<newline>'', ''data: [DONE]\<newline>\<newline>'']
   \<and> fst (process_stream sample_loads
      \<lparr>status = 200, text_body = Inr [],
       content_lines = [Line ''\<newline>'', Line ''data: {\"id\":\<newline>'', Line ''data: [DONE]\<newline>''],
       closed = False\<rparr> ''socrates'' ''req-1'')
    = [Raw ''\<newline>''] @ [Raw (''data: {\"id\":'' @ ''\<newline>\<newline>'')] @ [Raw ''data: [DONE]\<newline>\<newline>'']"
proof -
  let ?line = "''data: {\"id\":\<newline>''"
  let ?resp = "\<lparr>status = 200, text_body = Inr [],
       content_lines = [Line ''\<newline>'', Line ?line, Line ''data: [DONE]\<newline>''],
       closed = False\<rparr>"
  let ?dumps = "\<lambda>ensure_ascii payload. ''{}''"
  have clean: "?line = ''data: {\"id\":'' @ ''\<newline>'' \<and> ''data: {\"id\":'' \<noteq> []
      \<and> \<not> py_isspace (hd ''data: {\"id\":'') \<and> \<not> py_isspace (last ''data: {\"id\":'')"
    by (simp add: py_isspace_def)
  have hyp: "content_lines ?resp = [Line ''\<newline>''] @ Line ?line # [Line ''data: [DONE]\<newline>'']
      \<and> list_all (passes sample_loads ''socrates'') [Line ''\<newline>'']
      \<and> prefix ''data: '' (py_strip ?line)
      \<and> py_strip (drop 6 (py_strip ?line)) \<noteq> ''[DONE]''
      \<and> sample_loads (py_strip (drop 6 (py_strip ?line)))
           = Inl (JSONDecodeError ''Expecting value'')"
    by (simp add: strip_clean_line strip_bad_payload sample_loads_bad blank_line)
  note inst = process_stream_forwards_unparsed
      [where line = ?line and loads = sample_loads
         and requested_model_id = "''socrates''" and pre = "[Line ''\<newline>'']" and response = ?resp
         and request_id = "''req-1''" and dumps = ?dumps
         and rest = "[Line ''data: [DONE]\<newline>'']" and m = "''Expecting value''",
       unfolded Let_def, THEN mp, OF hyp]
  have before: "concat (map (frames_of sample_loads ''socrates'') [Line ''\<newline>'']) = [Raw ''\<newline>'']"
    by (simp add: blank_line)
  have after: "relay sample_loads ''socrates'' [Line ''data: [DONE]\<newline>'']
      = ([Raw ''data: [DONE]\<newline>\<newline>''], None)"
    by (simp add: done_line)
  from inst have texts: "process_stream_text sample_loads ?dumps ?resp ''socrates'' ''req-1''
      = map (render ?dumps) (concat (map (frames_of sample_loads ''socrates'') [Line ''\<newline>'']))
        @ [py_strip ?line @ ''\<newline>\<newline>'']
        @ map (render ?dumps) (fst (relay sample_loads ''socrates'' [Line ''data: [DONE]\<newline>'']))"
    by (elim conjE)
  from inst have verbatim: "\<forall>body. ?line = body @ ''\<newline>'' \<and> body \<noteq> []
                \<and> \<not> py_isspace (hd body) \<and> \<not> py_isspace (last body) \<longrightarrow>
                fst (process_stream sample_loads ?resp ''socrates'' ''req-1'')
                  = concat (map (frames_of sample_loads ''socrates'') [Line ''\<newline>''])
                    @ [Raw (body @ ''\<newline>\<newline>'')]
                    @ fst (relay sample_loads ''socrates'' [Line ''data: [DONE]\<newline>''])"
    by (elim conjE)
  have a: "process_stream_text sample_loads ?dumps ?resp ''socrates'' ''req-1''
      = [''\<newline>'', ''data: {\"id\":\<newline>\<newline>'', ''data: [DONE]\<newline>\<newline>'']"
    unfolding texts before after strip_clean_line by simp
  have "fst (process_stream sample_loads ?resp ''socrates'' ''req-1'')
      = concat (map (frames_of sample_loads ''socrates'') [Line ''\<newline>''])
        @ [Raw (''data: {\"id\":'' @ ''\<newline>\<newline>'')]
        @ fst (relay sample_loads ''socrates'' [Line ''data: [DONE]\<newline>''])"
    using verbatim [rule_format, OF clean] .
  then have b: "fst (process_stream sample_loads ?resp ''socrates'' ''req-1'')
      = [Raw ''\<newline>''] @ [Raw (''data: {\"id\":'' @ ''\<newline>\<newline>'')] @ [Raw ''data: [DONE]\<newline>\<newline>'']"
    unfolding before after by simp
  show ?thesis
    by (intro conjI a b)
qed









end
